theory Spec2Isabelle
  imports Complex_Main "HOL-Library.Sublist"
begin

section \<open>Values of the quiz engine of \<^verbatim>\<open>server.js\<close>\<close>

text \<open>
  The three quiz routes of \<^verbatim>\<open>server.js\<close> (\<^verbatim>\<open>POST /generate-quiz\<close>,
  \<^verbatim>\<open>POST /submit-quiz\<close>, \<^verbatim>\<open>GET /quiz-results/:quizId\<close>) work on values that
  come out of \<^verbatim>\<open>JSON.parse\<close>: the request body and the collaborator's answer.
  A parsed value is \<open>json\<close>; the JavaScript value \<^verbatim>\<open>undefined\<close> (an absent
  field, an index out of range) is \<open>None\<close> of \<open>json option\<close>. An object is the
  list of its own properties, each name once. A string is a list of code units below
  256. A number is the rational it denotes: \<^verbatim>\<open>JSON.parse\<close> never yields NaN, and
  \<^verbatim>\<open>-0 === 0\<close> holds, so equality of numbers is equality of these values.
\<close>

datatype json =
    JNull
  | JBool bool
  | JNum rat
  | JStr string
  | JArr "json list"
  | JObj "(string \<times> json) list"

text \<open>\<^verbatim>\<open>!v\<close> is false exactly for the truthy values.\<close>

fun truthy :: "json option \<Rightarrow> bool" where
  "truthy None = False"
| "truthy (Some JNull) = False"
| "truthy (Some (JBool b)) = b"
| "truthy (Some (JNum r)) = (r \<noteq> 0)"
| "truthy (Some (JStr s)) = (s \<noteq> [])"
| "truthy (Some (JArr xs)) = True"
| "truthy (Some (JObj kvs)) = True"

text \<open>
  \<^verbatim>\<open>a === b\<close> on two values that were parsed separately: primitives compare by
  value, \<^verbatim>\<open>undefined === undefined\<close> holds, and two arrays or objects are never
  the same reference.
\<close>

fun strict_eq :: "json option \<Rightarrow> json option \<Rightarrow> bool" where
  "strict_eq None None = True"
| "strict_eq (Some JNull) (Some JNull) = True"
| "strict_eq (Some (JBool a)) (Some (JBool b)) = (a = b)"
| "strict_eq (Some (JNum a)) (Some (JNum b)) = (a = b)"
| "strict_eq (Some (JStr a)) (Some (JStr b)) = (a = b)"
| "strict_eq _ _ = False"

text \<open>
  \<^verbatim>\<open>q.name\<close> for a parsed value \<open>q\<close> other than \<^verbatim>\<open>null\<close> and a name that
  \<^verbatim>\<open>Object.prototype\<close>, arrays and strings do not define (\<^verbatim>\<open>question\<close>,
  \<^verbatim>\<open>options\<close>, \<^verbatim>\<open>correctAnswer\<close>): the own property of an object, and
  \<^verbatim>\<open>undefined\<close> for everything else. On \<^verbatim>\<open>null\<close> the access throws; the
  callers below test for it first.
\<close>

fun get_prop :: "json \<Rightarrow> string \<Rightarrow> json option" where
  "get_prop (JObj kvs) name = map_of kvs name"
| "get_prop _ name = None"

text \<open>The decimal numeral of an array index, as a property key.\<close>

definition digit_char :: "nat \<Rightarrow> char" where
  "digit_char d = char_of (48 + d)"

fun decimal :: "nat \<Rightarrow> string" where
  "decimal n = (if n < 10 then [digit_char n] else decimal (n div 10) @ [digit_char (n mod 10)])"

declare decimal.simps [simp del]

text \<open>
  \<^verbatim>\<open>answers[idx]\<close> for a truthy \<^verbatim>\<open>answers\<close>: an array element, a one-character
  string of a string, the property named by the index of an object, and
  \<^verbatim>\<open>undefined\<close> for a number or a boolean. It never throws: \<^verbatim>\<open>null\<close> is
  rejected by the check of line 268 before any index is read.
\<close>

fun js_index :: "json \<Rightarrow> nat \<Rightarrow> json option" where
  "js_index (JArr xs) i = (if i < length xs then Some (xs ! i) else None)"
| "js_index (JStr s) i = (if i < length s then Some (JStr [s ! i]) else None)"
| "js_index (JObj kvs) i = map_of kvs (decimal i)"
| "js_index _ i = None"

text \<open>
  Whether converting a parsed value to a string throws, as the template literals of
  lines 180, 185, 247 and 307 convert what they interpolate. An object that has a
  property \<^verbatim>\<open>toString\<close> of its own has no callable one, and the \<^verbatim>\<open>valueOf\<close> it
  has or inherits is not callable or returns the object: the conversion throws a
  TypeError. Without such a property the inherited \<^verbatim>\<open>toString\<close> answers. An array
  is joined: its elements are converted in turn, \<^verbatim>\<open>null\<close> to the empty string.
  Every other value converts.
\<close>

fun to_string_throws :: "json \<Rightarrow> bool" where
  "to_string_throws (JObj kvs) = (map_of kvs ''toString'' \<noteq> None)"
| "to_string_throws (JArr xs) = list_ex to_string_throws xs"
| "to_string_throws v = False"

section \<open>Double-precision arithmetic of the score\<close>

text \<open>
  A non-negative double is written as a fraction \<open>(a, b)\<close> of naturals, \<open>b > 0\<close>,
  with value \<open>a / b\<close>. \<open>fl_frac a b\<close> is the double nearest to \<open>a / b\<close>, ties
  to even on the 53-bit significand: with \<open>2 ^ e \<le> a / b < 2 ^ (e + 1)\<close> it
  scales by \<open>2 ^ (52 - e)\<close>, rounds to an integer and scales back. The quotients of
  the routes lie between \<open>2 ^ -32\<close> and \<open>100\<close> (an array has fewer than
  \<open>2 ^ 32\<close> elements), far from the subnormal and overflow ranges, which are not
  modelled.
\<close>

fun bitlen :: "nat \<Rightarrow> nat" where
  "bitlen n = (if n = 0 then 0 else Suc (bitlen (n div 2)))"

declare bitlen.simps [simp del]

definition rne_div :: "nat \<Rightarrow> nat \<Rightarrow> nat" where
  "rne_div a b =
     (let q = a div b; r = a mod b in
      if 2 * r < b then q
      else if b < 2 * r then q + 1
      else if even q then q else q + 1)"

definition binexp :: "nat \<Rightarrow> nat \<Rightarrow> int" where
  "binexp a b =
     (let d = int (bitlen a) - int (bitlen b) in
      if (if 0 \<le> d then b * 2 ^ nat d \<le> a else b \<le> a * 2 ^ nat (- d)) then d else d - 1)"

definition fl_frac :: "nat \<Rightarrow> nat \<Rightarrow> nat \<times> nat" where
  "fl_frac a b =
     (if a = 0 then (0, 1)
      else let s = 52 - binexp a b in
        if 0 \<le> s then (rne_div (a * 2 ^ nat s) b, 2 ^ nat s)
        else (rne_div a (b * 2 ^ nat (- s)) * 2 ^ nat (- s), 1))"

definition frac_val :: "nat \<times> nat \<Rightarrow> rat" where
  "frac_val x = of_nat (fst x) / of_nat (snd x)"

text \<open>\<^verbatim>\<open>c / n\<close> for two array lengths or counts, \<open>n > 0\<close>.\<close>

definition js_div :: "nat \<Rightarrow> nat \<Rightarrow> nat \<times> nat" where
  "js_div c n = fl_frac c n"

text \<open>\<^verbatim>\<open>x * k\<close> for a double \<open>x\<close> and a small integer \<open>k\<close>.\<close>

definition js_mul :: "nat \<times> nat \<Rightarrow> nat \<Rightarrow> nat \<times> nat" where
  "js_mul x k = fl_frac (fst x * k) (snd x)"

text \<open>\<^verbatim>\<open>Math.round(x)\<close>: the integer nearest to \<open>x\<close>, a tie going up.\<close>

definition math_round :: "nat \<times> nat \<Rightarrow> nat" where
  "math_round x = (2 * fst x + snd x) div (2 * snd x)"

text \<open>
  The numbers the routes compute and store: an integral double, or NaN
  (\<^verbatim>\<open>0 / 0\<close> and everything computed from it).
\<close>

datatype jsnum = NaN | Num nat

text \<open>Line 293: \<^verbatim>\<open>Math.round((correctCount / quiz.questions.length) * 100)\<close>.\<close>

definition compute_score :: "nat \<Rightarrow> nat \<Rightarrow> jsnum" where
  "compute_score c n =
     (if n = 0 then NaN else Num (math_round (js_mul (js_div c n) 100)))"

section \<open>The quiz store\<close>

record submission =
  studentName :: json
  answers :: json
  score :: jsnum
  correctCount :: nat
  totalQuestions :: nat
  submittedAt :: string

record quiz =
  roomName :: json
  topic :: json
  questions :: "json list"
  submissions :: "submission list"
  createdAt :: string

type_synonym store = "string \<rightharpoonup> quiz"

text \<open>
  \<^verbatim>\<open>quizzes\<close> is a plain object literal (line 167), so \<^verbatim>\<open>quizzes[quizId]\<close>
  also finds what the object inherits from \<^verbatim>\<open>Object.prototype\<close>: a function or
  an object, truthy, and with no \<^verbatim>\<open>questions\<close> or \<^verbatim>\<open>submissions\<close>.
\<close>

definition object_prototype_keys :: "string list" where
  "object_prototype_keys =
     [''constructor'', ''toString'', ''toLocaleString'', ''valueOf'', ''hasOwnProperty'',
      ''isPrototypeOf'', ''propertyIsEnumerable'', ''__proto__'', ''__defineGetter__'',
      ''__defineSetter__'', ''__lookupGetter__'', ''__lookupSetter__'']"

datatype 'a lookup = Own 'a | Inherited | Missing

definition store_get :: "store \<Rightarrow> string \<Rightarrow> quiz lookup" where
  "store_get st k =
     (case st k of
        Some q \<Rightarrow> Own q
      | None \<Rightarrow> if k \<in> set object_prototype_keys then Inherited else Missing)"

datatype error =
    BadRequest
  | NotFound
  | InvalidFormat
  | GenerationFailed
  | SubmissionFailed
  | ResultsFailed

section \<open>\<^verbatim>\<open>POST /generate-quiz\<close>\<close>

text \<open>
  \<^verbatim>\<open>String.prototype.trim\<close> and the two global replacements of line 224,
  \<^verbatim>\<open>/```json\n?/g\<close> and \<^verbatim>\<open>/```\n?/g\<close>: scanning from the left, each occurrence of
  the marker is deleted together with one line feed that follows it.
\<close>

definition is_space :: "char \<Rightarrow> bool" where
  "is_space c = (of_char c \<in> {9, 10, 11, 12, 13, 32, 160 :: nat})"

definition trim :: "string \<Rightarrow> string" where
  "trim s = rev (dropWhile is_space (rev (dropWhile is_space s)))"

definition line_feed :: char where
  "line_feed = CHR 0x0A"

fun drop_line_feed :: "string \<Rightarrow> string" where
  "drop_line_feed [] = []"
| "drop_line_feed (c # cs) = (if c = line_feed then cs else c # cs)"

function remove_marker :: "string \<Rightarrow> string \<Rightarrow> string" where
  "remove_marker p s =
     (if s = [] then []
      else if p \<noteq> [] \<and> prefix p s then remove_marker p (drop_line_feed (drop (length p) s))
      else hd s # remove_marker p (tl s))"
  by pat_completeness auto
termination
proof (relation "measure (\<lambda>(p, s). length s)")
  show "wf (measure (\<lambda>(p, s). length s))" by simp
next
  fix p s :: string
  assume "s \<noteq> []" and "p \<noteq> [] \<and> prefix p s"
  then have "length (drop (length p) s) < length s" by (cases p) auto
  moreover have "length (drop_line_feed t) \<le> length t" for t
    by (cases t) auto
  ultimately have "length (drop_line_feed (drop (length p) s)) < length s"
    by (meson le_less_trans)
  then show "((p, drop_line_feed (drop (length p) s)), (p, s)) \<in> measure (\<lambda>(p, s). length s)"
    by simp
next
  fix p s :: string
  assume "s \<noteq> []"
  then show "((p, tl s), (p, s)) \<in> measure (\<lambda>(p, s). length s)" by (cases s) auto
qed

declare remove_marker.simps [simp del]

definition json_text :: "string \<Rightarrow> string" where
  "json_text responseText =
     trim (remove_marker ''```'' (remove_marker ''```json'' responseText))"

text \<open>
  What the collaborator call of lines 205 to 218 hands back: the promise rejects, or
  it resolves to a completion whose \<^verbatim>\<open>choices[0]?.message?.content\<close> is a text or
  is missing. The text of the prompt only goes to the collaborator, whose outcome is
  an input here.
\<close>

datatype completion = Rejected | Content "string option"

record public_question =
  pq_id :: nat
  pq_question :: "json option"
  pq_options :: "json option"

record generated =
  gen_quizId :: string
  gen_questions :: "public_question list"

text \<open>Lines 251 to 255; reading a field of a \<^verbatim>\<open>null\<close> element throws.\<close>

fun public_view :: "nat \<times> json \<Rightarrow> public_question option" where
  "public_view (idx, JNull) = None"
| "public_view (idx, q) =
     Some \<lparr>pq_id = idx, pq_question = get_prop q ''question'', pq_options = get_prop q ''options''\<rparr>"

definition public_questions :: "json list \<Rightarrow> public_question list option" where
  "public_questions qs = those (map public_view (enumerate 0 qs))"

text \<open>
  The handler for a request whose prompt is built (lines 178 to 203 do not throw), so
  that the collaborator is asked and \<open>outcome\<close> is what it hands back. \<open>parse\<close> is
  \<^verbatim>\<open>JSON.parse\<close> (\<open>None\<close> when it throws), \<open>quizId\<close> the identifier drawn at line
  236 and \<open>now\<close> the time stamp of line 244. The quiz is written to the store at
  line 239; the log line 247, which converts \<^verbatim>\<open>roomName\<close> to a string, and the
  response of line 249 come after it, and a throw of either is answered by the
  \<^verbatim>\<open>catch\<close> of line 257.
\<close>

definition generate_quiz ::
  "(string \<Rightarrow> json option) \<Rightarrow> json option \<Rightarrow> json option \<Rightarrow> completion \<Rightarrow> string \<Rightarrow> string
     \<Rightarrow> store \<Rightarrow> (error + generated) \<times> store" where
  "generate_quiz parse tp rn outcome quizId now st =
     (if \<not> truthy tp \<or> \<not> truthy rn then (Inl BadRequest, st)
      else case outcome of
        Rejected \<Rightarrow> (Inl GenerationFailed, st)
      | Content None \<Rightarrow> (Inl InvalidFormat, st)
      | Content (Some content) \<Rightarrow>
          (case parse (json_text (trim content)) of
             Some (JArr quizQuestions) \<Rightarrow>
               (let st' = st(quizId \<mapsto>
                      \<lparr>roomName = the rn, topic = the tp, questions = quizQuestions,
                       submissions = [], createdAt = now\<rparr>)
                in if to_string_throws (the rn) then (Inl GenerationFailed, st')
                   else case public_questions quizQuestions of
                     None \<Rightarrow> (Inl GenerationFailed, st')
                   | Some view \<Rightarrow> (Inr \<lparr>gen_quizId = quizId, gen_questions = view\<rparr>, st'))
           | _ \<Rightarrow> (Inl InvalidFormat, st)))"

text \<open>
  Building the prompt. Line 179 tests \<^verbatim>\<open>studentQuestions && studentQuestions.length > 0\<close>
  and, when it holds, calls \<^verbatim>\<open>studentQuestions.map\<close> and converts each element to a
  string; line 185 converts \<^verbatim>\<open>topic\<close>. A non-empty array is mapped; a non-empty
  string has a positive length and no \<^verbatim>\<open>map\<close>; a number or \<^verbatim>\<open>true\<close> has no
  length; an object has the length its own property gives, and no callable
  \<^verbatim>\<open>map\<close>.

  \<open>js_positive pos v\<close> is the comparison \<^verbatim>\<open>v > 0\<close> for such a length (\<open>None\<close> when
  it throws): the value is converted to a number, an object or an array through the
  string it converts to. \<open>elem_positive pos x\<close> is that comparison for the string
  of \<open>x\<close>, which is what an array of the one element \<open>x\<close> joins to; an array of
  more elements joins to a text with a comma, which is no number. Only a boolean
  differs: \<^verbatim>\<open>true\<close> is the number 1, and its string is no number. \<open>pos s\<close> says
  whether the number a string \<open>s\<close> converts to is greater than 0; like
  \<^verbatim>\<open>JSON.parse\<close> it is left to the engine.
\<close>

fun elem_positive :: "(string \<Rightarrow> bool) \<Rightarrow> json \<Rightarrow> bool option" where
  "elem_positive pos JNull = Some False"
| "elem_positive pos (JBool b) = Some False"
| "elem_positive pos (JNum r) = Some (0 < r)"
| "elem_positive pos (JStr s) = Some (pos s)"
| "elem_positive pos (JObj kvs) = (if map_of kvs ''toString'' \<noteq> None then None else Some False)"
| "elem_positive pos (JArr []) = Some False"
| "elem_positive pos (JArr [x]) = elem_positive pos x"
| "elem_positive pos (JArr (x # y # zs)) =
     (if list_ex to_string_throws (x # y # zs) then None else Some False)"

definition js_positive :: "(string \<Rightarrow> bool) \<Rightarrow> json option \<Rightarrow> bool option" where
  "js_positive pos v =
     (case v of
        None \<Rightarrow> Some False
      | Some (JBool b) \<Rightarrow> Some b
      | Some x \<Rightarrow> elem_positive pos x)"

definition context_throws :: "(string \<Rightarrow> bool) \<Rightarrow> json option \<Rightarrow> bool" where
  "context_throws pos studentQuestions =
     (if \<not> truthy studentQuestions then False
      else case the studentQuestions of
        JArr xs \<Rightarrow> list_ex to_string_throws xs
      | JStr s \<Rightarrow> True
      | JObj kvs \<Rightarrow> js_positive pos (map_of kvs ''length'') \<noteq> Some False
      | _ \<Rightarrow> False)"

definition prompt_throws :: "(string \<Rightarrow> bool) \<Rightarrow> json option \<Rightarrow> json option \<Rightarrow> bool" where
  "prompt_throws pos tp studentQuestions =
     (context_throws pos studentQuestions \<or> to_string_throws (the tp))"

text \<open>
  The whole route: the check of line 174, the prompt, and then the handler above. A
  throw while the prompt is built is answered by the \<^verbatim>\<open>catch\<close> of line 257 before
  the collaborator is asked.
\<close>

definition post_generate_quiz ::
  "(string \<Rightarrow> json option) \<Rightarrow> (string \<Rightarrow> bool) \<Rightarrow> json option \<Rightarrow> json option
     \<Rightarrow> json option \<Rightarrow> completion \<Rightarrow> string \<Rightarrow> string \<Rightarrow> store
     \<Rightarrow> (error + generated) \<times> store" where
  "post_generate_quiz parse pos tp studentQuestions rn outcome quizId now st =
     (if \<not> truthy tp \<or> \<not> truthy rn then (Inl BadRequest, st)
      else if prompt_throws pos tp studentQuestions then (Inl GenerationFailed, st)
      else generate_quiz parse tp rn outcome quizId now st)"

section \<open>\<^verbatim>\<open>POST /submit-quiz\<close>\<close>

record question_result =
  questionId :: nat
  question :: "json option"
  studentAnswer :: "json option"
  correctAnswer :: "json option"
  isCorrect :: bool

record graded =
  res_score :: jsnum
  res_correctCount :: nat
  res_totalQuestions :: nat
  results :: "question_result list"

text \<open>
  Lines 278 to 291: the callback of \<^verbatim>\<open>quiz.questions.map\<close>, run from index
  \<open>idx\<close> on, with the number of correct answers it counts. A \<^verbatim>\<open>null\<close>
  question makes \<^verbatim>\<open>q.correctAnswer\<close> throw.
\<close>

fun grade :: "json \<Rightarrow> nat \<Rightarrow> json list \<Rightarrow> (nat \<times> question_result list) option" where
  "grade ans idx [] = Some (0, [])"
| "grade ans idx (q # qs) =
     (if q = JNull then None
      else case grade ans (Suc idx) qs of
        None \<Rightarrow> None
      | Some (cnt, rs) \<Rightarrow>
          (let sa = js_index ans idx;
               ok = strict_eq sa (get_prop q ''correctAnswer'')
           in Some ((if ok then Suc cnt else cnt),
                \<lparr>questionId = idx, question = get_prop q ''question'', studentAnswer = sa,
                 correctAnswer = get_prop q ''correctAnswer'', isCorrect = ok\<rparr> # rs)))"

text \<open>
  The handler; \<open>quizId\<close> is a string, as the data model has it. An inherited
  property passes the test of line 273 and fails at \<^verbatim>\<open>quiz.questions.map\<close>,
  which the \<^verbatim>\<open>catch\<close> of line 315 turns into the 500 answer. The log line 307
  converts \<^verbatim>\<open>studentName\<close> to a string after the submission was pushed at line
  305: when that throws, the same \<^verbatim>\<open>catch\<close> answers and the submission stays.
\<close>

definition submit_quiz ::
  "string \<Rightarrow> json option \<Rightarrow> json option \<Rightarrow> string \<Rightarrow> store \<Rightarrow> (error + graded) \<times> store" where
  "submit_quiz quizId nm ans now st =
     (if quizId = [] \<or> \<not> truthy nm \<or> \<not> truthy ans then (Inl BadRequest, st)
      else case store_get st quizId of
        Missing \<Rightarrow> (Inl NotFound, st)
      | Inherited \<Rightarrow> (Inl SubmissionFailed, st)
      | Own qz \<Rightarrow>
          (case grade (the ans) 0 (questions qz) of
             None \<Rightarrow> (Inl SubmissionFailed, st)
           | Some (cnt, rs) \<Rightarrow>
               (let n = length (questions qz);
                    sc = compute_score cnt n;
                    sub = \<lparr>studentName = the nm, answers = the ans, score = sc,
                           correctCount = cnt, totalQuestions = n, submittedAt = now\<rparr>;
                    st' = st(quizId \<mapsto> qz\<lparr>submissions := submissions qz @ [sub]\<rparr>)
                in if to_string_throws (the nm) then (Inl SubmissionFailed, st')
                   else (Inr \<lparr>res_score = sc, res_correctCount = cnt, res_totalQuestions = n,
                              results = rs\<rparr>, st'))))"

section \<open>\<^verbatim>\<open>GET /quiz-results/:quizId\<close>\<close>

record stats =
  totalSubmissions :: nat
  averageScore :: jsnum
  highestScore :: jsnum
  lowestScore :: jsnum

record results_view =
  rv_quizId :: string
  rv_topic :: json
  rv_roomName :: json
  rv_createdAt :: string
  rv_questions :: "json list"
  rv_submissions :: "submission list"
  rv_stats :: stats

text \<open>
  \<^verbatim>\<open>a + b\<close> of the \<^verbatim>\<open>reduce\<close> of line 335. The scores are at most 100 and an
  array has fewer than \<open>2 ^ 32\<close> elements, so every partial sum is an integer below
  \<open>2 ^ 53\<close> and the addition is exact; NaN stays NaN.
\<close>

fun js_add :: "jsnum \<Rightarrow> jsnum \<Rightarrow> jsnum" where
  "js_add (Num a) (Num b) = Num (a + b)"
| "js_add _ _ = NaN"

fun js_max :: "jsnum \<Rightarrow> jsnum \<Rightarrow> jsnum" where
  "js_max (Num a) (Num b) = Num (max a b)"
| "js_max _ _ = NaN"

fun js_min :: "jsnum \<Rightarrow> jsnum \<Rightarrow> jsnum" where
  "js_min (Num a) (Num b) = Num (min a b)"
| "js_min _ _ = NaN"

text \<open>\<^verbatim>\<open>Math.round(sum / scores.length)\<close> for a non-empty array.\<close>

fun js_average :: "jsnum \<Rightarrow> nat \<Rightarrow> jsnum" where
  "js_average (Num s) n = Num (math_round (js_div s n))"
| "js_average NaN n = NaN"

text \<open>
  \<^verbatim>\<open>Math.max(...scores)\<close> and \<^verbatim>\<open>Math.min(...scores)\<close> of a non-empty array: NaN
  as soon as one score is NaN. The spread passes every score as an argument of one
  call, and the engine throws a RangeError when there are more of them than it can
  pass, \<open>max_args\<close> (about 125000 in Node's default configuration): \<open>None\<close>.
\<close>

definition math_max :: "nat \<Rightarrow> jsnum list \<Rightarrow> jsnum option" where
  "math_max max_args xs =
     (if max_args < length xs then None else Some (foldl js_max (hd xs) (tl xs)))"

definition math_min :: "nat \<Rightarrow> jsnum list \<Rightarrow> jsnum option" where
  "math_min max_args xs =
     (if max_args < length xs then None else Some (foldl js_min (hd xs) (tl xs)))"

text \<open>Lines 332 to 338; \<open>None\<close> when a spread throws.\<close>

definition compute_stats :: "nat \<Rightarrow> submission list \<Rightarrow> stats option" where
  "compute_stats max_args subs =
     (let scores = map score subs;
          average = (if length scores > 0
            then js_average (foldl js_add (Num 0) scores) (length scores) else Num 0)
      in case (if length scores > 0 then math_max max_args scores else Some (Num 0)) of
           None \<Rightarrow> None
         | Some highest \<Rightarrow>
             (case (if length scores > 0 then math_min max_args scores else Some (Num 0)) of
                None \<Rightarrow> None
              | Some lowest \<Rightarrow>
                  Some \<lparr>totalSubmissions = length subs, averageScore = average,
                        highestScore = highest, lowestScore = lowest\<rparr>))"

text \<open>
  The handler: an inherited property has no \<^verbatim>\<open>submissions\<close>, and a throw of line
  332 or of a spread is answered by the \<^verbatim>\<open>catch\<close> of line 349.
\<close>

definition quiz_results :: "nat \<Rightarrow> string \<Rightarrow> store \<Rightarrow> error + results_view" where
  "quiz_results max_args quizId st =
     (case store_get st quizId of
        Missing \<Rightarrow> Inl NotFound
      | Inherited \<Rightarrow> Inl ResultsFailed
      | Own qz \<Rightarrow>
          (case compute_stats max_args (submissions qz) of
             None \<Rightarrow> Inl ResultsFailed
           | Some s \<Rightarrow>
               Inr \<lparr>rv_quizId = quizId, rv_topic = topic qz, rv_roomName = roomName qz,
                    rv_createdAt = createdAt qz, rv_questions = questions qz,
                    rv_submissions = submissions qz, rv_stats = s\<rparr>))"

section \<open>Sequences of requests\<close>

text \<open>
  The three routes as one request type, served one after the other on the shared
  store: Node runs each handler's synchronous part without interleaving, and the only
  \<^verbatim>\<open>await\<close> of a quiz route (line 205) comes before it reads or writes the store.
  What the routes take from the engine is one record.
\<close>

record engine =
  json_parse :: "string \<Rightarrow> json option"
  text_positive :: "string \<Rightarrow> bool"
  max_arguments :: nat

datatype request =
    GenerateQuiz "json option" "json option" "json option" completion string string
  | SubmitQuiz string "json option" "json option" string
  | QuizResults string

datatype response =
    Generated "error + generated"
  | Submitted "error + graded"
  | Results "error + results_view"

fun serve :: "engine \<Rightarrow> request \<Rightarrow> store \<Rightarrow> response \<times> store" where
  "serve eng (GenerateQuiz tp studentQuestions rn outcome quizId now) st =
     (case post_generate_quiz (json_parse eng) (text_positive eng) tp studentQuestions rn
             outcome quizId now st of
        (r, st') \<Rightarrow> (Generated r, st'))"
| "serve eng (SubmitQuiz quizId nm ans now) st =
     (case submit_quiz quizId nm ans now st of (r, st') \<Rightarrow> (Submitted r, st'))"
| "serve eng (QuizResults quizId) st =
     (Results (quiz_results (max_arguments eng) quizId st), st)"

fun run :: "engine \<Rightarrow> request list \<Rightarrow> store \<Rightarrow> store" where
  "run eng [] st = st"
| "run eng (r # rs) st = run eng rs (snd (serve eng r st))"

text \<open>A generation that draws the identifier \<open>k\<close> at line 236.\<close>

fun draws :: "string \<Rightarrow> request \<Rightarrow> bool" where
  "draws k (GenerateQuiz tp studentQuestions rn outcome quizId now) = (quizId = k)"
| "draws k r = False"

text \<open>A submission to the quiz \<open>k\<close> that was answered with a grade.\<close>

fun accepted_submit :: "string \<Rightarrow> request \<Rightarrow> response \<Rightarrow> bool" where
  "accepted_submit k (SubmitQuiz quizId nm ans now) (Submitted (Inr g)) = (quizId = k)"
| "accepted_submit k r a = False"

fun accepted :: "engine \<Rightarrow> string \<Rightarrow> request list \<Rightarrow> store \<Rightarrow> nat" where
  "accepted eng k [] st = 0"
| "accepted eng k (r # rs) st =
     (if accepted_submit k r (fst (serve eng r st)) then 1 else 0)
       + accepted eng k rs (snd (serve eng r st))"

text \<open>A submission whose \<^verbatim>\<open>studentName\<close> makes the log line 307 throw.\<close>

fun throwing_name :: "request \<Rightarrow> bool" where
  "throwing_name (SubmitQuiz quizId nm ans now) = (truthy nm \<and> to_string_throws (the nm))"
| "throwing_name r = False"

section \<open>Notions used in the statements\<close>

text \<open>\<^verbatim>\<open>Array.isArray\<close> on a parsed value.\<close>

fun is_array :: "json \<Rightarrow> bool" where
  "is_array (JArr xs) = True"
| "is_array _ = False"

text \<open>A question without its answer key, and an array of such questions.\<close>

fun without_key :: "json \<Rightarrow> json" where
  "without_key (JObj kvs) = JObj (filter (\<lambda>kv. fst kv \<noteq> ''correctAnswer'') kvs)"
| "without_key v = v"

fun hide_answer_keys :: "json \<Rightarrow> json" where
  "hide_answer_keys (JArr qs) = JArr (map without_key qs)"
| "hide_answer_keys v = v"

text \<open>A text between an opening fence with its tag and a closing fence, each on a line of its own.\<close>

definition fenced :: "string \<Rightarrow> string \<Rightarrow> string" where
  "fenced tag body = ''```'' @ tag @ [line_feed] @ body @ [line_feed] @ ''```''"

text \<open>
  What the two replacements leave of the tag of an opening fence: a leading
  \<^verbatim>\<open>json\<close> goes with the backquotes.
\<close>

definition unstripped :: "string \<Rightarrow> string" where
  "unstripped tag = (if prefix ''json'' tag then drop 4 tag else tag)"

text \<open>
  Rounding to the nearest integer, a tie going up, on exact rationals; the exact
  percentage of \<open>c\<close> correct answers out of \<open>n\<close>; the exact mean of a list of
  scores; and the rationals that lie halfway between two integers.
\<close>

definition round_half_up :: "rat \<Rightarrow> nat" where
  "round_half_up x = nat \<lfloor>x + 1 / 2\<rfloor>"

definition percentage :: "nat \<Rightarrow> nat \<Rightarrow> rat" where
  "percentage c n = 100 * of_nat c / of_nat n"

definition mean :: "nat list \<Rightarrow> rat" where
  "mean ks = of_nat (sum_list ks) / of_nat (length ks)"

definition half_way :: "rat \<Rightarrow> bool" where
  "half_way x = (of_int \<lfloor>x + 1 / 2\<rfloor> = x + 1 / 2)"

text \<open>The number of question indices at which the answer given is the question's key.\<close>

definition correct_count :: "json \<Rightarrow> json list \<Rightarrow> nat" where
  "correct_count ans qs =
     length (filter (\<lambda>i. strict_eq (js_index ans i) (get_prop (qs ! i) ''correctAnswer''))
       [0..<length qs])"

text \<open>Example data: a question with the answer key \<open>k\<close>, and quizzes built from such questions.\<close>

definition mcq :: "rat \<Rightarrow> json" where
  "mcq k = JObj [(''question'', JStr ''Q?''),
                 (''options'', JArr [JStr ''A'', JStr ''B'', JStr ''C'', JStr ''D'']),
                 (''correctAnswer'', JNum k)]"

definition quiz_of :: "json list \<Rightarrow> quiz" where
  "quiz_of qs = \<lparr>roomName = JStr ''room-1'', topic = JStr ''Photosynthesis'', questions = qs,
     submissions = [], createdAt = ''2024-01-01T00:00:00.000Z''\<rparr>"

definition scored :: "string \<Rightarrow> nat \<Rightarrow> submission" where
  "scored who cnt = \<lparr>studentName = JStr who, answers = JArr [], score = Num (20 * cnt),
     correctCount = cnt, totalQuestions = 5, submittedAt = ''2024-01-01T00:05:00.000Z''\<rparr>"

text \<open>More submissions than the example engine passes arguments to one call.\<close>

definition many_submissions :: "submission list" where
  "many_submissions = replicate 125001 (scored ''Alice'' 5)"

definition forty_questions :: "json list" where
  "forty_questions = replicate 40 (mcq 0)"

definition twenty_three_right :: json where
  "twenty_three_right = JArr (replicate 23 (JNum 0) @ replicate 17 (JNum 1))"

text \<open>The body value \<^verbatim>\<open>{"toString": 1}\<close>: truthy, and not convertible to a string.\<close>

definition unprintable :: json where
  "unprintable = JObj [(''toString'', JNum 1)]"

text \<open>An engine for the examples: it parses the text \<^verbatim>\<open>[]\<close> and nothing else.\<close>

definition example_engine :: engine where
  "example_engine = \<lparr>json_parse = (\<lambda>s. if s = ''[]'' then Some (JArr []) else None),
     text_positive = (\<lambda>s. False), max_arguments = 125000\<rparr>"


section \<open>Generating a quiz\<close>

lemma map_of_filter_other:
  "k \<noteq> k' \<Longrightarrow> map_of (filter (\<lambda>kv. fst kv \<noteq> k') kvs) k = map_of kvs k"
  by (induction kvs) auto

lemma public_view_without_key: "public_view (i, without_key q) = public_view (i, q)"
  by (cases q) (simp_all add: map_of_filter_other)

lemma those_public_view_without_key:
  "those (map public_view (enumerate n (map without_key qs)))
     = those (map public_view (enumerate n qs))"
  by (induction qs arbitrary: n) (auto simp: public_view_without_key split: option.splits)

lemma those_public_view_Some:
  "those (map public_view (enumerate n qs)) = Some view \<Longrightarrow>
   view = map (\<lambda>(i, q). \<lparr>pq_id = i, pq_question = get_prop q ''question'',
                         pq_options = get_prop q ''options''\<rparr>) (enumerate n qs)"
proof (induction qs arbitrary: n view)
  case Nil
  then show ?case by simp
next
  case (Cons q qs)
  then show ?case
    by (cases q) (auto split: option.splits)
qed

lemma those_public_view_None:
  "those (map public_view (enumerate n qs)) = None \<longleftrightarrow> JNull \<in> set qs"
proof (induction qs arbitrary: n)
  case Nil
  then show ?case by simp
next
  case (Cons q qs)
  then show ?case
    by (cases q) (auto split: option.splits)
qed

lemma post_generate_quiz_built:
  "\<not> prompt_throws pos tp studentQuestions \<Longrightarrow>
   post_generate_quiz parse pos tp studentQuestions rn outcome quizId now st
     = generate_quiz parse tp rn outcome quizId now st"
  by (simp add: post_generate_quiz_def generate_quiz_def)

lemma post_generate_quiz_prompt_throws:
  "truthy tp \<Longrightarrow> truthy rn \<Longrightarrow> prompt_throws pos tp studentQuestions \<Longrightarrow>
   post_generate_quiz parse pos tp studentQuestions rn outcome quizId now st
     = (Inl GenerationFailed, st)"
  by (simp add: post_generate_quiz_def)

text \<open>
  C3. When the text handed to \<^verbatim>\<open>JSON.parse\<close> does not parse, or parses to a value
  that is not an array, the call answers with the invalid-format error and the store
  is the one it started from: no quiz is created.
\<close>

theorem generate_quiz_invalid_format:
  assumes "truthy tp" and "truthy rn"
    and "case parse (json_text (trim content)) of None \<Rightarrow> True | Some v \<Rightarrow> \<not> is_array v"
  shows "generate_quiz parse tp rn (Content (Some content)) quizId now st
       = (Inl InvalidFormat, st)"
  using assms by (auto simp: generate_quiz_def split: option.splits json.splits)

theorem generate_quiz_invalid_format_witness:
  "generate_quiz (\<lambda>s. if s = ''{}'' then Some (JObj []) else None) (Some (JStr ''Photosynthesis''))
     (Some (JStr ''room-1'')) (Content (Some ''{}'')) ''quiz_1_abc'' ''2024'' Map.empty
   = (Inl InvalidFormat, Map.empty)
   \<and> generate_quiz (\<lambda>s. if s = ''{}'' then Some (JObj []) else None) (Some (JStr ''Photosynthesis''))
     (Some (JStr ''room-1'')) (Content (Some ''Sorry, no quiz'')) ''quiz_1_abc'' ''2024'' Map.empty
   = (Inl InvalidFormat, Map.empty)"
  using generate_quiz_invalid_format [of "Some (JStr ''Photosynthesis'')" "Some (JStr ''room-1'')"
      "\<lambda>s. if s = ''{}'' then Some (JObj []) else None" "''{}''" "''quiz_1_abc''" "''2024''"
      Map.empty]
    generate_quiz_invalid_format [of "Some (JStr ''Photosynthesis'')" "Some (JStr ''room-1'')"
      "\<lambda>s. if s = ''{}'' then Some (JObj []) else None" "''Sorry, no quiz''" "''quiz_1_abc''"
      "''2024''" Map.empty]
  by simp

text \<open>
  C4. The questions a successful call returns are, for each stored question, its
  index, its \<^verbatim>\<open>question\<close> and its \<^verbatim>\<open>options\<close>, and nothing else: the answer is
  the one the call would give had the collaborator's array carried no
  \<^verbatim>\<open>correctAnswer\<close> field at all.
\<close>

theorem generate_quiz_hides_answer_key:
  assumes "generate_quiz parse tp rn outcome quizId now st = (Inr g, st')"
  shows "\<exists>qz. st' quizId = Some qz
      \<and> gen_questions g = map (\<lambda>(i, q). \<lparr>pq_id = i, pq_question = get_prop q ''question'',
                         pq_options = get_prop q ''options''\<rparr>) (enumerate 0 (questions qz))
      \<and> fst (generate_quiz (\<lambda>s. map_option hide_answer_keys (parse s)) tp rn outcome quizId
             now st) = Inr g"
proof -
  from assms obtain content qs view where ok: "truthy tp" "truthy rn"
    and nt: "\<not> to_string_throws (the rn)"
    and out: "outcome = Content (Some content)"
    and parsed: "parse (json_text (trim content)) = Some (JArr qs)"
    and view: "public_questions qs = Some view"
    and g: "g = \<lparr>gen_quizId = quizId, gen_questions = view\<rparr>"
    and st': "st' = st(quizId \<mapsto> \<lparr>roomName = the rn, topic = the tp, questions = qs,
                       submissions = [], createdAt = now\<rparr>)"
    by (auto simp: generate_quiz_def Let_def
        split: if_splits completion.splits option.splits json.splits)
  have "public_questions (map without_key qs) = Some view"
    using view by (simp add: public_questions_def those_public_view_without_key)
  then have "fst (generate_quiz (\<lambda>s. map_option hide_answer_keys (parse s)) tp rn outcome quizId
             now st) = Inr g"
    using ok nt out parsed g by (simp add: generate_quiz_def Let_def)
  moreover have "gen_questions g = map (\<lambda>(i, q). \<lparr>pq_id = i,
      pq_question = get_prop q ''question'', pq_options = get_prop q ''options''\<rparr>)
      (enumerate 0 qs)"
    using view g those_public_view_Some [of 0 qs view] by (simp add: public_questions_def)
  ultimately show ?thesis using st' by simp
qed

theorem generate_quiz_hides_answer_key_witness:
  "fst (generate_quiz (\<lambda>s. map_option hide_answer_keys (Some (JArr [mcq 2, mcq 0])))
     (Some (JStr ''Photosynthesis'')) (Some (JStr ''room-1'')) (Content (Some ''[]''))
     ''quiz_1_abc'' ''2024'' Map.empty)
   = Inr \<lparr>gen_quizId = ''quiz_1_abc'',
          gen_questions =
            [\<lparr>pq_id = 0, pq_question = Some (JStr ''Q?''),
              pq_options = Some (JArr [JStr ''A'', JStr ''B'', JStr ''C'', JStr ''D''])\<rparr>,
             \<lparr>pq_id = 1, pq_question = Some (JStr ''Q?''),
              pq_options = Some (JArr [JStr ''A'', JStr ''B'', JStr ''C'', JStr ''D''])\<rparr>]\<rparr>"
proof -
  let ?g = "\<lparr>gen_quizId = ''quiz_1_abc'',
          gen_questions =
            [\<lparr>pq_id = 0, pq_question = Some (JStr ''Q?''),
              pq_options = Some (JArr [JStr ''A'', JStr ''B'', JStr ''C'', JStr ''D''])\<rparr>,
             \<lparr>pq_id = 1, pq_question = Some (JStr ''Q?''),
              pq_options = Some (JArr [JStr ''A'', JStr ''B'', JStr ''C'', JStr ''D''])\<rparr>]\<rparr>"
  let ?st = "[''quiz_1_abc'' \<mapsto> \<lparr>roomName = JStr ''room-1'', topic = JStr ''Photosynthesis'',
     questions = [mcq 2, mcq 0], submissions = [], createdAt = ''2024''\<rparr>]"
  have "generate_quiz (\<lambda>s. Some (JArr [mcq 2, mcq 0])) (Some (JStr ''Photosynthesis''))
     (Some (JStr ''room-1'')) (Content (Some ''[]'')) ''quiz_1_abc'' ''2024'' Map.empty
     = (Inr ?g, ?st)"
    by (simp add: generate_quiz_def public_questions_def mcq_def)
  from generate_quiz_hides_answer_key [OF this] show ?thesis by simp
qed



section \<open>Code fences around the collaborator's text\<close>

lemma prefix_append_notin:
  assumes "prefix p (s @ c # t)" and "c \<notin> set p"
  shows "prefix p s"
proof -
  from assms(1) consider "prefix p s" | us where "p = s @ us" and "prefix us (c # t)"
    by (auto simp: prefix_append)
  then show ?thesis
  proof cases
    case 1
    then show ?thesis .
  next
    case 2
    with assms(2) have "us = []" by (cases us) auto
    with 2 show ?thesis by simp
  qed
qed

lemma remove_marker_Nil: "remove_marker p [] = []"
  by (simp add: remove_marker.simps)

lemma remove_marker_Cons:
  "remove_marker p (x # xs) =
     (if p \<noteq> [] \<and> prefix p (x # xs)
      then remove_marker p (drop_line_feed (drop (length p) (x # xs)))
      else x # remove_marker p xs)"
  by (subst remove_marker.simps) simp

lemma remove_marker_fresh:
  assumes "p \<noteq> []" and "hd p \<notin> set s"
  shows "remove_marker p (s @ t) = s @ remove_marker p t"
  using assms(2)
proof (induction s)
  case Nil
  then show ?case by simp
next
  case (Cons a s)
  then have "\<not> prefix p (a # s @ t)" using assms(1) by (cases p) auto
  with Cons show ?case by (simp add: remove_marker_Cons)
qed

lemma dropWhile_keep: "xs \<noteq> [] \<Longrightarrow> \<not> P (hd xs) \<Longrightarrow> dropWhile P xs = xs"
  by (cases xs) auto

lemma trim_id:
  assumes "s \<noteq> []" and "\<not> is_space (hd s)" and "\<not> is_space (last s)"
  shows "trim s = s"
proof -
  have "dropWhile is_space s = s" using assms(1,2) by (rule dropWhile_keep)
  moreover have "dropWhile is_space (rev s) = rev s"
    using assms(1,3) by (intro dropWhile_keep) (simp_all add: hd_rev)
  ultimately show ?thesis by (simp add: trim_def)
qed

lemma trim_line_feed: "trim (s @ [line_feed]) = trim s"
proof -
  have sp: "is_space line_feed" by (simp add: is_space_def line_feed_def)
  show ?thesis
  proof (cases "\<forall>x \<in> set s. is_space x")
    case True
    then have "dropWhile is_space s = []" by (simp add: dropWhile_eq_Nil_conv)
    moreover have "dropWhile is_space (s @ [line_feed]) = []"
      using True sp by (simp add: dropWhile_eq_Nil_conv)
    ultimately show ?thesis by (simp only: trim_def)
  next
    case False
    then have "dropWhile is_space (s @ [line_feed]) = dropWhile is_space s @ [line_feed]"
      by (simp add: dropWhile_append)
    then show ?thesis using sp by (simp add: trim_def)
  qed
qed

lemma json_text_plain: "json_text (trim ''[]'') = ''[]''"
  by (simp add: json_text_def trim_def is_space_def remove_marker_Cons remove_marker_Nil)

lemma unstripped_Nil: "unstripped tag = [] \<longleftrightarrow> tag = [] \<or> tag = ''json''"
proof (cases "prefix ''json'' tag")
  case True
  then obtain r where "tag = ''json'' @ r" by (auto simp: prefix_def)
  then show ?thesis by (auto simp: unstripped_def)
next
  case False
  then have "tag \<noteq> ''json''" by auto
  with False show ?thesis by (simp add: unstripped_def)
qed

text \<open>
  The closing fence goes; so does the opening one, with \<^verbatim>\<open>json\<close> when the tag
  begins with it, and with the line feed when nothing of the tag is left.
\<close>

lemma json_text_fenced:
  assumes "body \<noteq> []" and "\<not> is_space (hd body)" and "\<not> is_space (last body)"
    and "CHR 0x60 \<notin> set body" and "CHR 0x60 \<notin> set tag"
    and "unstripped tag \<noteq> [] \<Longrightarrow> \<not> is_space (hd (unstripped tag))"
  shows "json_text (trim (fenced tag body))
       = (if unstripped tag = [] then body else unstripped tag @ line_feed # body)"
proof -
  define rest where "rest = unstripped tag"
  define core where "core = (if rest = [] then body else rest @ line_feed # body)"
  have sp: "is_space line_feed" by (simp add: is_space_def line_feed_def)
  have lfq: "line_feed \<noteq> CHR 0x60" by (simp add: line_feed_def)
  have rest_set: "set rest \<subseteq> set tag"
    unfolding rest_def unstripped_def by (auto dest: in_set_dropD)
  have rest_hd: "hd rest \<noteq> line_feed" if "rest \<noteq> []"
    using assms(6) that sp unfolding rest_def by auto
  have core_ne: "core \<noteq> []" using assms(1) by (simp add: core_def)
  have core_hd: "\<not> is_space (hd core)"
    using assms(2,6) by (simp add: core_def rest_def)
  have core_last: "\<not> is_space (last core)"
    using assms(1,3) by (simp add: core_def)
  have core_bq: "CHR 0x60 \<notin> set (core @ [line_feed])"
    using assms(4,5) rest_set lfq by (auto simp: core_def)
  have dl: "drop_line_feed (rest @ line_feed # body @ line_feed # ''```'')
      = (core @ [line_feed]) @ ''```''"
  proof (cases rest)
    case Nil
    then show ?thesis by (simp add: core_def)
  next
    case (Cons r rs)
    with rest_hd have "r \<noteq> line_feed" by simp
    with Cons show ?thesis by (simp add: core_def)
  qed
  have tailJ: "remove_marker ''```json'' ((core @ [line_feed]) @ ''```'') = (core @ [line_feed]) @ ''```''"
  proof -
    have "remove_marker ''```json'' ''```'' = ''```''"
      by (simp add: remove_marker_Cons remove_marker_Nil)
    moreover have "remove_marker ''```json'' ((core @ [line_feed]) @ ''```'')
        = (core @ [line_feed]) @ remove_marker ''```json'' ''```''"
      using core_bq by (intro remove_marker_fresh) simp_all
    ultimately show ?thesis by simp
  qed
  have tailB: "remove_marker ''```'' ((core @ [line_feed]) @ ''```'') = core @ [line_feed]"
  proof -
    have "remove_marker ''```'' ''```'' = []"
      by (simp add: remove_marker_Cons remove_marker_Nil)
    moreover have "remove_marker ''```'' ((core @ [line_feed]) @ ''```'')
        = (core @ [line_feed]) @ remove_marker ''```'' ''```''"
      using core_bq by (intro remove_marker_fresh) simp_all
    ultimately show ?thesis by simp
  qed
  have "remove_marker ''```'' (remove_marker ''```json'' (fenced tag body)) = core @ [line_feed]"
  proof (cases "prefix ''json'' tag")
    case True
    then have tag: "tag = ''json'' @ rest"
      unfolding rest_def unstripped_def by (auto simp: prefix_def)
    have "remove_marker ''```json'' (fenced tag body)
        = remove_marker ''```json'' (drop_line_feed (rest @ line_feed # body @ line_feed # ''```''))"
      by (simp add: fenced_def tag remove_marker_Cons)
    then show ?thesis by (simp only: dl tailJ tailB)
  next
    case False
    then have rest: "rest = tag" by (simp add: rest_def unstripped_def)
    define Y where "Y = tag @ line_feed # body @ line_feed # ''```''"
    have np: "\<not> prefix ''json'' Y"
    proof
      assume "prefix ''json'' Y"
      then have "prefix ''json'' tag"
        unfolding Y_def by (rule prefix_append_notin) (simp add: line_feed_def)
      with False show False by simp
    qed
    have "hd Y \<noteq> CHR 0x60 \<and> Y \<noteq> []"
      using assms(5) lfq unfolding Y_def by (cases tag) auto
    then obtain y Ys where Y: "Y = y # Ys" and y: "y \<noteq> CHR 0x60" by (cases Y) auto
    have "remove_marker ''```json'' (''```'' @ Y) = ''```'' @ remove_marker ''```json'' Y"
      using np y by (auto simp: remove_marker_Cons Y)
    moreover have "remove_marker ''```json'' Y = Y"
    proof -
      have "Y = (tag @ line_feed # body @ [line_feed]) @ ''```''" by (simp add: Y_def)
      moreover have "remove_marker ''```json'' ((tag @ line_feed # body @ [line_feed]) @ ''```'')
          = (tag @ line_feed # body @ [line_feed]) @ remove_marker ''```json'' ''```''"
        using assms(4,5) lfq by (intro remove_marker_fresh) auto
      moreover have "remove_marker ''```json'' ''```'' = ''```''"
        by (simp add: remove_marker_Cons remove_marker_Nil)
      ultimately show ?thesis by simp
    qed
    ultimately have r1: "remove_marker ''```json'' (fenced tag body) = ''```'' @ Y"
      by (simp add: fenced_def Y_def)
    have "remove_marker ''```'' (''```'' @ Y) = remove_marker ''```'' (drop_line_feed Y)"
      by (simp add: remove_marker_Cons)
    also have "drop_line_feed Y = (core @ [line_feed]) @ ''```''"
      using dl unfolding Y_def rest .
    finally show ?thesis by (simp only: r1 tailB)
  qed
  moreover have "trim (fenced tag body) = fenced tag body"
    by (rule trim_id) (simp_all add: fenced_def is_space_def)
  moreover have "trim core = core" using core_ne core_hd core_last by (rule trim_id)
  ultimately show ?thesis
    by (simp add: json_text_def trim_line_feed core_def rest_def)
qed

text \<open>
  C9 (the code differs). The collaborator's text is a JSON text \<open>body\<close>, an array
  without \<^verbatim>\<open>null\<close> elements, between an opening fence with a tag and a closing
  fence; body and tag hold no backquote, and the body has no white space at its ends.
  When the tag is empty or is \<^verbatim>\<open>json\<close> the fences are stripped, the body is parsed
  and its quiz is stored and returned. With any other tag, \<^verbatim>\<open>JSON\<close> or
  \<^verbatim>\<open>javascript\<close> for example, what is left of the tag stays in front of the body,
  \<^verbatim>\<open>JSON.parse\<close> rejects that text (a JSON text does not go on, after a line
  feed, with a whole JSON text), and the request is answered with the invalid-format
  error and no quiz. The request is one whose prompt is built and whose
  \<^verbatim>\<open>roomName\<close> can be converted to a string.
\<close>

theorem generate_quiz_fenced:
  assumes "truthy tp" and "truthy rn" and "\<not> prompt_throws pos tp studentQuestions"
    and "\<not> to_string_throws (the rn)"
    and "body \<noteq> []" and "\<not> is_space (hd body)" and "\<not> is_space (last body)"
    and "CHR 0x60 \<notin> set body" and "CHR 0x60 \<notin> set tag"
    and "parse body = Some (JArr qs)" and "JNull \<notin> set qs"
    and "unstripped tag \<noteq> [] \<longrightarrow> \<not> is_space (hd (unstripped tag))
           \<and> parse (unstripped tag @ line_feed # body) = None"
  shows "post_generate_quiz parse pos tp studentQuestions rn (Content (Some (fenced tag body)))
           quizId now st
       = (if tag = [] \<or> tag = ''json''
          then (Inr \<lparr>gen_quizId = quizId,
                     gen_questions = map (\<lambda>(i, q). \<lparr>pq_id = i,
                         pq_question = get_prop q ''question'',
                         pq_options = get_prop q ''options''\<rparr>) (enumerate 0 qs)\<rparr>,
                st(quizId \<mapsto> \<lparr>roomName = the rn, topic = the tp, questions = qs,
                       submissions = [], createdAt = now\<rparr>))
          else (Inl InvalidFormat, st))"
proof -
  have jt: "json_text (trim (fenced tag body))
       = (if unstripped tag = [] then body else unstripped tag @ line_feed # body)"
    using assms(5-9,12) by (intro json_text_fenced) simp_all
  have built: "post_generate_quiz parse pos tp studentQuestions rn
      (Content (Some (fenced tag body))) quizId now st
    = generate_quiz parse tp rn (Content (Some (fenced tag body))) quizId now st"
    using assms(3) by (rule post_generate_quiz_built)
  show ?thesis
  proof (cases "unstripped tag = []")
    case True
    obtain view where view: "public_questions qs = Some view"
      using assms(11) those_public_view_None [of 0 qs]
      by (cases "public_questions qs") (auto simp: public_questions_def)
    then have "view = map (\<lambda>(i, q). \<lparr>pq_id = i, pq_question = get_prop q ''question'',
                         pq_options = get_prop q ''options''\<rparr>) (enumerate 0 qs)"
      using those_public_view_Some [of 0 qs view] by (simp add: public_questions_def)
    with view True assms(1,2,4,10) jt show ?thesis
      using unstripped_Nil [of tag] by (simp add: built generate_quiz_def Let_def)
  next
    case False
    with assms(1,2,12) jt show ?thesis
      using unstripped_Nil [of tag] by (simp add: built generate_quiz_def)
  qed
qed

theorem generate_quiz_fenced_witness:
  "post_generate_quiz (json_parse example_engine) (text_positive example_engine)
      (Some (JStr ''Photosynthesis'')) None (Some (JStr ''room-1''))
      (Content (Some (fenced ''JSON'' ''[]''))) ''quiz_1_abc'' ''2024'' Map.empty
    = (Inl InvalidFormat, Map.empty)
   \<and> post_generate_quiz (json_parse example_engine) (text_positive example_engine)
      (Some (JStr ''Photosynthesis'')) None (Some (JStr ''room-1''))
      (Content (Some (fenced ''json'' ''[]''))) ''quiz_1_abc'' ''2024'' Map.empty
    = (Inr \<lparr>gen_quizId = ''quiz_1_abc'', gen_questions = []\<rparr>,
       [''quiz_1_abc'' \<mapsto> \<lparr>roomName = JStr ''room-1'', topic = JStr ''Photosynthesis'',
          questions = [], submissions = [], createdAt = ''2024''\<rparr>])
   \<and> post_generate_quiz (json_parse example_engine) (text_positive example_engine)
      (Some (JStr ''Photosynthesis'')) None (Some (JStr ''room-1''))
      (Content (Some (fenced [] ''[]''))) ''quiz_1_abc'' ''2024'' Map.empty
    = (Inr \<lparr>gen_quizId = ''quiz_1_abc'', gen_questions = []\<rparr>,
       [''quiz_1_abc'' \<mapsto> \<lparr>roomName = JStr ''room-1'', topic = JStr ''Photosynthesis'',
          questions = [], submissions = [], createdAt = ''2024''\<rparr>])"
  using generate_quiz_fenced [of "Some (JStr ''Photosynthesis'')" "Some (JStr ''room-1'')"
      "text_positive example_engine" None "''[]''" "''JSON''" "json_parse example_engine" "[]"
      "''quiz_1_abc''" "''2024''" Map.empty]
    generate_quiz_fenced [of "Some (JStr ''Photosynthesis'')" "Some (JStr ''room-1'')"
      "text_positive example_engine" None "''[]''" "''json''" "json_parse example_engine" "[]"
      "''quiz_1_abc''" "''2024''" Map.empty]
    generate_quiz_fenced [of "Some (JStr ''Photosynthesis'')" "Some (JStr ''room-1'')"
      "text_positive example_engine" None "''[]''" "[]" "json_parse example_engine" "[]"
      "''quiz_1_abc''" "''2024''" Map.empty]
  by (simp add: unstripped_def is_space_def line_feed_def example_engine_def prompt_throws_def
      context_throws_def)

section \<open>Submitting answers\<close>

lemma grade_None: "grade ans idx qs = None \<longleftrightarrow> JNull \<in> set qs"
  by (induction qs arbitrary: idx) (auto simp: Let_def split: option.splits)

lemma grade_Some:
  assumes "JNull \<notin> set qs"
  obtains cnt rs where "grade ans idx qs = Some (cnt, rs)"
  using assms grade_None [of ans idx qs] by (cases "grade ans idx qs") auto

lemma grade_length: "grade ans idx qs = Some (cnt, rs) \<Longrightarrow> length rs = length qs"
  by (induction qs arbitrary: idx cnt rs) (auto simp: Let_def split: option.splits if_splits)

lemma grade_nth:
  "grade ans idx qs = Some (cnt, rs) \<Longrightarrow> i < length qs \<Longrightarrow>
   rs ! i = \<lparr>questionId = idx + i, question = get_prop (qs ! i) ''question'',
             studentAnswer = js_index ans (idx + i),
             correctAnswer = get_prop (qs ! i) ''correctAnswer'',
             isCorrect = strict_eq (js_index ans (idx + i)) (get_prop (qs ! i) ''correctAnswer'')\<rparr>"
proof (induction qs arbitrary: idx cnt rs i)
  case Nil
  then show ?case by simp
next
  case (Cons q qs)
  then show ?case
    by (cases i) (auto simp: Let_def split: option.splits if_splits)
qed

lemma grade_count:
  "grade ans idx qs = Some (cnt, rs) \<Longrightarrow> cnt = length (filter isCorrect rs)"
  by (induction qs arbitrary: idx cnt rs) (auto simp: Let_def split: option.splits if_splits)

lemma grade_count_le:
  assumes "grade ans idx qs = Some (cnt, rs)"
  shows "cnt \<le> length qs"
proof -
  have "cnt = length (filter isCorrect rs)" using assms by (rule grade_count)
  moreover have "length rs = length qs" using assms by (rule grade_length)
  ultimately show ?thesis by (metis length_filter_le)
qed


lemma submit_quiz_graded:
  assumes "quizId \<noteq> []" and "truthy nm" and "truthy ans" and "st quizId = Some qz"
    and "grade (the ans) 0 (questions qz) = Some (cnt, rs)"
  shows "submit_quiz quizId nm ans now st =
     (if to_string_throws (the nm) then Inl SubmissionFailed
      else Inr \<lparr>res_score = compute_score cnt (length (questions qz)), res_correctCount = cnt,
                res_totalQuestions = length (questions qz), results = rs\<rparr>,
      st(quizId \<mapsto> qz\<lparr>submissions := submissions qz @
         [\<lparr>studentName = the nm, answers = the ans,
           score = compute_score cnt (length (questions qz)), correctCount = cnt,
           totalQuestions = length (questions qz), submittedAt = now\<rparr>]\<rparr>))"
  using assms by (simp add: submit_quiz_def store_get_def Let_def)

text \<open>
  C2 (the code differs). On a stored quiz with no question the division of line 293
  is \<^verbatim>\<open>0 / 0\<close>: the score of the submission that is appended is NaN and not 0, and
  so is the score that is returned. (No score is returned when \<^verbatim>\<open>studentName\<close>
  cannot be converted to a string: the log line 307 throws, after the push.)
\<close>

theorem submit_quiz_empty_quiz:
  assumes "quizId \<noteq> []" and "truthy nm" and "truthy ans" and "st quizId = Some qz"
    and "questions qz = []"
  shows "\<exists>r st' qz'. submit_quiz quizId nm ans now st = (r, st')
      \<and> (if to_string_throws (the nm) then r = Inl SubmissionFailed
          else \<exists>g. r = Inr g \<and> res_totalQuestions g = 0 \<and> res_score g = NaN)
      \<and> st' quizId = Some qz' \<and> map score (submissions qz') = map score (submissions qz) @ [NaN]"
  using assms by (simp add: submit_quiz_def store_get_def Let_def compute_score_def)

theorem submit_quiz_empty_quiz_witness:
  "\<exists>g st'. submit_quiz ''quiz_1_abc'' (Some (JStr ''Alice'')) (Some (JArr [])) ''2024''
        [''quiz_1_abc'' \<mapsto> quiz_of []] = (Inr g, st')
     \<and> res_score g = NaN \<and> res_score g \<noteq> Num 0"
  using submit_quiz_empty_quiz [of "''quiz_1_abc''" "Some (JStr ''Alice'')" "Some (JArr [])"
      "[''quiz_1_abc'' \<mapsto> quiz_of []]" "quiz_of []" "''2024''"]
  by (auto simp: quiz_of_def)







section \<open>The submissions of a quiz\<close>

lemma generate_quiz_other:
  "quizId \<noteq> k \<Longrightarrow> snd (generate_quiz parse tp rn outcome quizId now st) k = st k"
  by (auto simp: generate_quiz_def Let_def split: completion.splits option.splits json.splits)

lemma post_generate_quiz_other:
  "quizId \<noteq> k \<Longrightarrow>
   snd (post_generate_quiz parse pos tp studentQuestions rn outcome quizId now st) k = st k"
  by (simp add: post_generate_quiz_def generate_quiz_other)

lemma submit_quiz_step:
  assumes "st k = Some qz"
  shows "\<exists>qz'. snd (submit_quiz quizId nm ans now st) k = Some qz'
      \<and> questions qz' = questions qz
      \<and> (\<exists>new. submissions qz' = submissions qz @ new
            \<and> (if accepted_submit k (SubmitQuiz quizId nm ans now)
                  (Submitted (fst (submit_quiz quizId nm ans now st))) then 1 else 0) \<le> length new
            \<and> (\<not> throwing_name (SubmitQuiz quizId nm ans now) \<longrightarrow>
                  length new = (if accepted_submit k (SubmitQuiz quizId nm ans now)
                    (Submitted (fst (submit_quiz quizId nm ans now st))) then 1 else 0)))"
  using assms
  by (auto simp: submit_quiz_def store_get_def Let_def
      split: option.splits lookup.splits prod.splits)

lemma serve_step:
  assumes "st k = Some qz" and "\<not> draws k r"
  shows "\<exists>qz'. snd (serve eng r st) k = Some qz'
      \<and> questions qz' = questions qz
      \<and> (\<exists>new. submissions qz' = submissions qz @ new
            \<and> (if accepted_submit k r (fst (serve eng r st)) then 1 else 0) \<le> length new
            \<and> (\<not> throwing_name r \<longrightarrow>
                  length new = (if accepted_submit k r (fst (serve eng r st)) then 1 else 0)))"
proof (cases r)
  case (GenerateQuiz tp studentQuestions rn outcome quizId now)
  with assms have "snd (post_generate_quiz (json_parse eng) (text_positive eng) tp
      studentQuestions rn outcome quizId now st) k = Some qz"
    by (simp add: post_generate_quiz_other)
  with GenerateQuiz show ?thesis by (simp add: split_def)
next
  case (SubmitQuiz quizId nm ans now)
  with submit_quiz_step [of st k qz quizId nm ans now] assms(1) show ?thesis
    by (simp add: split_def)
next
  case (QuizResults quizId)
  with assms show ?thesis by simp
qed

text \<open>
  Over any sequence of requests in which no generation draws the identifier of a
  stored quiz again, that quiz stays stored and its earlier submissions stay where
  they were; one record is appended for each submission that is answered with a
  grade, and none else unless a \<^verbatim>\<open>studentName\<close> cannot be converted to a string.
\<close>

lemma run_append_only:
  assumes "st k = Some qz" and "\<forall>r \<in> set rs. \<not> draws k r"
  shows "\<exists>qz'. run eng rs st k = Some qz' \<and> questions qz' = questions qz
      \<and> (\<exists>new. submissions qz' = submissions qz @ new \<and> accepted eng k rs st \<le> length new
            \<and> ((\<forall>r \<in> set rs. \<not> throwing_name r) \<longrightarrow> length new = accepted eng k rs st))"
  using assms
proof (induction rs arbitrary: st qz)
  case Nil
  then show ?case by simp
next
  case (Cons r rs)
  from Cons.prems have nd: "\<not> draws k r" and rest: "\<forall>r \<in> set rs. \<not> draws k r" by simp_all
  define a where "a = (if accepted_submit k r (fst (serve eng r st)) then 1 else 0 :: nat)"
  from serve_step [of st k qz r eng] Cons.prems(1) nd
  obtain qz1 new1 where s1: "snd (serve eng r st) k = Some qz1"
    and q1: "questions qz1 = questions qz"
    and n1: "submissions qz1 = submissions qz @ new1"
    and l1: "a \<le> length new1"
    and e1: "\<not> throwing_name r \<longrightarrow> length new1 = a"
    unfolding a_def by blast
  from Cons.IH [of "snd (serve eng r st)" qz1] s1 rest
  obtain qz2 new2 where s2: "run eng rs (snd (serve eng r st)) k = Some qz2"
    and q2: "questions qz2 = questions qz1"
    and n2: "submissions qz2 = submissions qz1 @ new2"
    and l2: "accepted eng k rs (snd (serve eng r st)) \<le> length new2"
    and e2: "(\<forall>r \<in> set rs. \<not> throwing_name r) \<longrightarrow>
        length new2 = accepted eng k rs (snd (serve eng r st))"
    by blast
  have acc: "accepted eng k (r # rs) st = a + accepted eng k rs (snd (serve eng r st))"
    by (simp add: a_def)
  have "submissions qz2 = submissions qz @ (new1 @ new2)" using n1 n2 by simp
  moreover have "accepted eng k (r # rs) st \<le> length (new1 @ new2)"
    using l1 l2 unfolding acc by simp
  moreover have "(\<forall>r' \<in> set (r # rs). \<not> throwing_name r') \<longrightarrow>
      length (new1 @ new2) = accepted eng k (r # rs) st"
    using e1 e2 unfolding acc by simp
  ultimately show ?case using s2 q1 q2 by (simp del: accepted.simps)
qed

lemma compute_stats_total:
  assumes "length subs \<le> max_args"
  shows "\<exists>s. compute_stats max_args subs = Some s \<and> totalSubmissions s = length subs"
  using assms by (simp add: compute_stats_def math_max_def math_min_def Let_def)

text \<open>
  C8 (the code differs). A well-formed submission to a stored quiz whose
  \<^verbatim>\<open>studentName\<close> cannot be converted to a string is answered with the failure of
  the \<^verbatim>\<open>catch\<close> of line 315, and yet its record was appended at line 305: the
  \<^verbatim>\<open>totalSubmissions\<close> that a results request reports has grown by one without a
  successful submission.
\<close>

theorem submit_quiz_recorded_failure:
  assumes "quizId \<noteq> []" and "truthy nm" and "truthy ans" and "st quizId = Some qz"
    and "JNull \<notin> set (questions qz)" and "to_string_throws (the nm)"
    and "length (submissions qz) < max_args"
  shows "\<exists>st' v v'. submit_quiz quizId nm ans now st = (Inl SubmissionFailed, st')
      \<and> quiz_results max_args quizId st = Inr v
      \<and> quiz_results max_args quizId st' = Inr v'
      \<and> totalSubmissions (rv_stats v) = length (submissions qz)
      \<and> totalSubmissions (rv_stats v') = length (submissions qz) + 1"
proof -
  from assms(5) obtain cnt rs where g: "grade (the ans) 0 (questions qz) = Some (cnt, rs)"
    by (rule grade_Some)
  define sub where "sub = \<lparr>studentName = the nm, answers = the ans,
           score = compute_score cnt (length (questions qz)), correctCount = cnt,
           totalQuestions = length (questions qz), submittedAt = now\<rparr>"
  have s: "submit_quiz quizId nm ans now st
      = (Inl SubmissionFailed, st(quizId \<mapsto> qz\<lparr>submissions := submissions qz @ [sub]\<rparr>))"
    using assms(1-4,6) g by (simp add: submit_quiz_graded sub_def)
  obtain s0 where s0: "compute_stats max_args (submissions qz) = Some s0"
    and t0: "totalSubmissions s0 = length (submissions qz)"
    using compute_stats_total [of "submissions qz" max_args] assms(7) by auto
  obtain s1 where s1: "compute_stats max_args (submissions qz @ [sub]) = Some s1"
    and t1: "totalSubmissions s1 = length (submissions qz @ [sub])"
    using compute_stats_total [of "submissions qz @ [sub]" max_args] assms(7) by auto
  show ?thesis
    using assms(4) s s0 t0 s1 t1 by (simp add: quiz_results_def store_get_def)
qed

theorem submit_quiz_recorded_failure_witness:
  "\<exists>st' v v'. submit_quiz ''quiz_1_abc'' (Some unprintable) (Some (JArr [JNum 0])) ''2024''
        [''quiz_1_abc'' \<mapsto> quiz_of [mcq 0]] = (Inl SubmissionFailed, st')
     \<and> quiz_results 125000 ''quiz_1_abc'' [''quiz_1_abc'' \<mapsto> quiz_of [mcq 0]] = Inr v
     \<and> quiz_results 125000 ''quiz_1_abc'' st' = Inr v'
     \<and> totalSubmissions (rv_stats v) = 0 \<and> totalSubmissions (rv_stats v') = 1"
  using submit_quiz_recorded_failure [of "''quiz_1_abc''" "Some unprintable" "Some (JArr [JNum 0])"
      "[''quiz_1_abc'' \<mapsto> quiz_of [mcq 0]]" "quiz_of [mcq 0]" 125000 "''2024''"]
  by (simp add: unprintable_def quiz_of_def mcq_def)

text \<open>
  A generation that draws the identifier of a stored quiz again (line 239 writes
  without looking) replaces the quiz: its submissions are gone.
\<close>

theorem redrawn_identifier_drops_submissions:
  "(\<exists>v. quiz_results 125000 ''quiz_1_abc''
        (run example_engine
           [SubmitQuiz ''quiz_1_abc'' (Some (JStr ''Alice'')) (Some (JArr [JNum 0])) ''2024'']
           [''quiz_1_abc'' \<mapsto> quiz_of [mcq 0]]) = Inr v
      \<and> totalSubmissions (rv_stats v) = 1)
   \<and> (\<exists>v. quiz_results 125000 ''quiz_1_abc''
        (run example_engine
           [SubmitQuiz ''quiz_1_abc'' (Some (JStr ''Alice'')) (Some (JArr [JNum 0])) ''2024'',
            GenerateQuiz (Some (JStr ''Light'')) None (Some (JStr ''room-2''))
              (Content (Some ''[]'')) ''quiz_1_abc'' ''2025'']
           [''quiz_1_abc'' \<mapsto> quiz_of [mcq 0]]) = Inr v
      \<and> totalSubmissions (rv_stats v) = 0)"
proof -
  let ?st = "[''quiz_1_abc'' \<mapsto> quiz_of [mcq 0]]"
  obtain sub where s1: "snd (submit_quiz ''quiz_1_abc'' (Some (JStr ''Alice''))
        (Some (JArr [JNum 0])) ''2024'' ?st)
      = ?st(''quiz_1_abc'' \<mapsto> (quiz_of [mcq 0])\<lparr>submissions := [sub]\<rparr>)"
    by (simp add: submit_quiz_def store_get_def quiz_of_def mcq_def Let_def)
  have g: "snd (post_generate_quiz (json_parse example_engine) (text_positive example_engine)
       (Some (JStr ''Light'')) None (Some (JStr ''room-2'')) (Content (Some ''[]''))
       ''quiz_1_abc'' ''2025'' st) ''quiz_1_abc''
     = Some \<lparr>roomName = JStr ''room-2'', topic = JStr ''Light'', questions = [],
         submissions = [], createdAt = ''2025''\<rparr>" for st
    by (simp add: post_generate_quiz_def generate_quiz_def prompt_throws_def context_throws_def
        example_engine_def json_text_plain public_questions_def)
  have a: "\<exists>s. compute_stats 125000 [sub] = Some s \<and> totalSubmissions s = 1"
    using compute_stats_total [of "[sub]" 125000] by simp
  have b: "\<exists>s. compute_stats 125000 [] = Some s \<and> totalSubmissions s = 0"
    using compute_stats_total [of "[]" 125000] by simp
  from a b show ?thesis
    by (auto simp: split_def s1 g quiz_results_def store_get_def)
qed

section \<open>Rounding to a double\<close>

text \<open>
  The error of \<open>fl_frac\<close>: the quotient is scaled into the 53-bit range, so the
  result is within half a unit of the last place of \<open>a / b\<close>, and it is \<open>a / b\<close>
  itself when that is a multiple of one half.
\<close>

lemma bitlen_pos: "0 < n \<Longrightarrow> bitlen n = Suc (bitlen (n div 2))"
  by (subst bitlen.simps) simp

lemma bitlen_bounds: "0 < n \<Longrightarrow> 2 ^ (bitlen n - 1) \<le> n \<and> n < 2 ^ bitlen n"
proof (induction n rule: bitlen.induct)
  case (1 n)
  show ?case
  proof (cases "n div 2 = 0")
    case True
    with "1.prems" have "n = 1" by (simp add: div_eq_0_iff)
    then show ?thesis by (simp add: bitlen.simps)
  next
    case False
    then have pos: "0 < n div 2" by simp
    from "1.IH" [OF _ pos] "1.prems"
    have ih: "2 ^ (bitlen (n div 2) - 1) \<le> n div 2" "n div 2 < 2 ^ bitlen (n div 2)" by simp_all
    have l: "0 < bitlen (n div 2)" using pos by (simp add: bitlen_pos)
    have "(2::nat) ^ bitlen (n div 2) = 2 * 2 ^ (bitlen (n div 2) - 1)"
      using l by (cases "bitlen (n div 2)") simp_all
    with ih(1) have lo: "(2::nat) ^ bitlen (n div 2) \<le> n" by linarith
    from ih(2) have hi: "n < 2 * 2 ^ bitlen (n div 2)" by linarith
    show ?thesis using lo hi "1.prems" by (simp add: bitlen_pos)
  qed
qed

lemma bitlen_powi:
  assumes "0 < n"
  shows "(2::rat) powi (int (bitlen n) - 1) \<le> of_nat n" and "of_nat n < (2::rat) powi int (bitlen n)"
proof -
  from assms have l: "0 < bitlen n" by (simp add: bitlen_pos)
  then have e: "int (bitlen n) - 1 = int (bitlen n - 1)" by simp
  have "(2::rat) powi int (bitlen n - 1) = of_nat (2 ^ (bitlen n - 1))"
    by (simp only: power_int_of_nat of_nat_power of_nat_numeral)
  also have "\<dots> \<le> of_nat n" using bitlen_bounds [OF assms] by (simp only: of_nat_le_iff)
  finally show "(2::rat) powi (int (bitlen n) - 1) \<le> of_nat n" by (simp only: e)
  have "(of_nat n :: rat) < of_nat (2 ^ bitlen n)"
    using bitlen_bounds [OF assms] by (simp only: of_nat_less_iff)
  then show "of_nat n < (2::rat) powi int (bitlen n)"
    by (simp only: power_int_of_nat of_nat_power of_nat_numeral)
qed

lemma binexp_test:
  assumes "0 < b"
  shows "(if 0 \<le> d then b * 2 ^ nat d \<le> a else b \<le> a * 2 ^ nat (- d))
     \<longleftrightarrow> (2::rat) powi d \<le> of_nat a / of_nat b"
proof (cases "0 \<le> d")
  case True
  then have p: "(2::rat) powi d = 2 ^ nat d" by (simp add: power_int_def)
  have "(b * 2 ^ nat d \<le> a) = ((of_nat (b * 2 ^ nat d) :: rat) \<le> of_nat a)"
    by (simp only: of_nat_le_iff)
  also have "\<dots> = ((2::rat) ^ nat d \<le> of_nat a / of_nat b)"
    using assms by (simp add: pos_le_divide_eq mult.commute)
  finally show ?thesis using True p by simp
next
  case False
  then have p: "(2::rat) powi d = 1 / 2 ^ nat (- d)"
    by (simp add: power_int_def field_simps)
  have "(b \<le> a * 2 ^ nat (- d)) = ((of_nat b :: rat) \<le> of_nat (a * 2 ^ nat (- d)))"
    by (simp only: of_nat_le_iff)
  also have "\<dots> = (1 / (2::rat) ^ nat (- d) \<le> of_nat a / of_nat b)"
    using assms by (simp add: field_simps)
  finally show ?thesis using False p by simp
qed

lemma binexp_bounds:
  assumes "0 < a" and "0 < b"
  shows "(2::rat) powi binexp a b \<le> of_nat a / of_nat b"
    and "of_nat a / of_nat b < (2::rat) powi (binexp a b + 1)"
proof -
  define d where "d = int (bitlen a) - int (bitlen b)"
  define x :: rat where "x = of_nat a / of_nat b"
  have bpos: "(0::rat) < of_nat b" using assms by simp
  have "x < 2 powi int (bitlen a) / 2 powi (int (bitlen b) - 1)"
    unfolding x_def using bitlen_powi [OF assms(1)] bitlen_powi [OF assms(2)] bpos
    by (intro frac_less) simp_all
  also have "\<dots> = 2 powi (int (bitlen a) - (int (bitlen b) - 1))"
    by (rule power_int_diff [symmetric]) simp
  also have "int (bitlen a) - (int (bitlen b) - 1) = d + 1" by (simp add: d_def)
  finally have hi: "x < 2 powi (d + 1)" .
  have "2 powi (int (bitlen a) - 1) / 2 powi int (bitlen b) < x"
    unfolding x_def using bitlen_powi [OF assms(1)] bitlen_powi [OF assms(2)] bpos
    by (intro frac_less2) simp_all
  moreover have "(2::rat) powi (int (bitlen a) - 1) / 2 powi int (bitlen b)
      = 2 powi (int (bitlen a) - 1 - int (bitlen b))"
    by (rule power_int_diff [symmetric]) simp
  moreover have "int (bitlen a) - 1 - int (bitlen b) = d - 1" by (simp add: d_def)
  ultimately have lo: "2 powi (d - 1) < x" by simp
  have e: "binexp a b = (if 2 powi d \<le> x then d else d - 1)"
    unfolding binexp_def Let_def d_def [symmetric] x_def
    using binexp_test [OF assms(2), of d a] by simp
  show "(2::rat) powi binexp a b \<le> of_nat a / of_nat b"
    using e lo by (auto simp: x_def)
  show "of_nat a / of_nat b < (2::rat) powi (binexp a b + 1)"
    using e hi by (auto simp: x_def)
qed

lemma rne_div_cases:
  assumes "0 < b"
  shows "rne_div a b = a div b \<and> 2 * (a mod b) \<le> b
       \<or> rne_div a b = a div b + 1 \<and> b \<le> 2 * (a mod b)"
  by (auto simp: rne_div_def Let_def)

lemma rne_div_error:
  assumes "0 < b"
  shows "\<bar>of_nat (rne_div a b) - (of_nat a / of_nat b :: rat)\<bar> \<le> 1 / 2"
proof -
  define q r where "q = a div b" and "r = a mod b"
  have a: "a = q * b + r" and rb: "r < b" using assms by (simp_all add: q_def r_def)
  have bpos: "(0::rat) < of_nat b" using assms by simp
  have quot: "(of_nat a / of_nat b :: rat) = of_nat q + of_nat r / of_nat b"
    using bpos by (simp add: a add_divide_distrib)
  from rne_div_cases [OF assms, of a]
  consider "rne_div a b = q" "2 * r \<le> b" | "rne_div a b = q + 1" "b \<le> 2 * r"
    by (auto simp: q_def r_def)
  then show ?thesis
  proof cases
    case 1
    from 1(2) have "(of_nat (2 * r) :: rat) \<le> of_nat b" by (simp only: of_nat_le_iff)
    then have "(of_nat r / of_nat b :: rat) \<le> 1 / 2" using bpos by (simp add: field_simps)
    moreover have "(0::rat) \<le> of_nat r / of_nat b" by simp
    ultimately show ?thesis using 1(1) quot by simp
  next
    case 2
    from 2(2) have "(of_nat b :: rat) \<le> of_nat (2 * r)" by (simp only: of_nat_le_iff)
    then have "(1 / 2 :: rat) \<le> of_nat r / of_nat b" using bpos by (simp add: field_simps)
    moreover have "(of_nat r / of_nat b :: rat) < 1" using rb bpos by simp
    ultimately show ?thesis using 2(1) quot by simp
  qed
qed

lemma rne_div_exact:
  assumes "0 < b" and "b dvd a"
  shows "(of_nat (rne_div a b) :: rat) = of_nat a / of_nat b"
proof -
  from assms(2) have "a mod b = 0" by simp
  then have "rne_div a b = a div b" using assms(1) by (simp add: rne_div_def Let_def)
  moreover from assms(2) obtain k where "a = b * k" ..
  ultimately show ?thesis using assms(1) by simp
qed

lemma binexp_less:
  assumes "0 < a" and "0 < b" and "of_nat a / of_nat b < (2::rat) ^ k"
  shows "binexp a b < int k"
proof (rule ccontr)
  assume "\<not> binexp a b < int k"
  then have "int k \<le> binexp a b" by simp
  then have "(2::rat) powi int k \<le> 2 powi binexp a b" by (intro power_int_increasing) simp_all
  also have "\<dots> \<le> of_nat a / of_nat b" using assms(1,2) by (rule binexp_bounds)
  finally show False using assms(3) by simp
qed

lemma fl_frac_scaled:
  assumes "0 < a" and "0 < b" and "of_nat a / of_nat b < (2::rat) ^ k" and "k \<le> 53"
  obtains s where "53 \<le> s + k" and "fl_frac a b = (rne_div (a * 2 ^ s) b, 2 ^ s)"
proof -
  have "binexp a b < int k" using assms(1-3) by (rule binexp_less)
  then have s: "0 \<le> 52 - binexp a b" "53 \<le> nat (52 - binexp a b) + k"
    using assms(4) by simp_all
  have "fl_frac a b = (rne_div (a * 2 ^ nat (52 - binexp a b)) b, 2 ^ nat (52 - binexp a b))"
    using assms(1) s(1) by (simp add: fl_frac_def Let_def)
  with s(2) show thesis by (rule that)
qed

lemma fl_frac_error:
  assumes "0 < a" and "0 < b" and "of_nat a / of_nat b < (2::rat) ^ k" and "k \<le> 53"
  shows "0 < snd (fl_frac a b)"
    and "\<bar>frac_val (fl_frac a b) - of_nat a / of_nat b\<bar> \<le> 1 / 2 ^ (54 - k)"
proof -
  from assms obtain s where s: "53 \<le> s + k"
    and fl: "fl_frac a b = (rne_div (a * 2 ^ s) b, 2 ^ s)"
    by (rule fl_frac_scaled)
  define m :: rat where "m = of_nat (rne_div (a * 2 ^ s) b)"
  define x :: rat where "x = of_nat a / of_nat b"
  define p :: rat where "p = 2 ^ s"
  have ppos: "0 < p" by (simp add: p_def)
  show "0 < snd (fl_frac a b)" by (simp add: fl)
  have "\<bar>of_nat (rne_div (a * 2 ^ s) b) - (of_nat (a * 2 ^ s) / of_nat b :: rat)\<bar> \<le> 1 / 2"
    using assms(2) by (rule rne_div_error)
  then have "\<bar>m - x * p\<bar> \<le> 1 / 2" by (simp add: m_def x_def p_def)
  then have "\<bar>m - x * p\<bar> / p \<le> (1 / 2) / p"
    using ppos by (intro divide_right_mono) simp_all
  moreover have "m / p - x = (m - x * p) / p" using ppos by (simp add: field_simps)
  then have "\<bar>m / p - x\<bar> = \<bar>m - x * p\<bar> / p"
    using ppos by (simp only: abs_divide abs_of_pos)
  ultimately have "\<bar>m / p - x\<bar> \<le> 1 / 2 ^ Suc s" by (simp add: p_def)
  also have "(1 :: rat) / 2 ^ Suc s \<le> 1 / 2 ^ (54 - k)"
    using s by (intro divide_left_mono power_increasing) simp_all
  finally show "\<bar>frac_val (fl_frac a b) - of_nat a / of_nat b\<bar> \<le> 1 / 2 ^ (54 - k)"
    by (simp add: fl frac_val_def m_def x_def p_def)
qed

lemma fl_frac_exact:
  assumes "0 < a" and "0 < b" and "of_nat a / of_nat b < (2::rat) ^ k" and "k \<le> 52"
    and "b dvd a * 2"
  shows "frac_val (fl_frac a b) = of_nat a / of_nat b"
proof -
  from assms(4) have "k \<le> 53" by simp
  with assms(1-3) obtain s where s: "53 \<le> s + k"
    and fl: "fl_frac a b = (rne_div (a * 2 ^ s) b, 2 ^ s)"
    by (rule fl_frac_scaled)
  from s assms(4) have "0 < s" by simp
  then obtain s' where "s = Suc s'" by (cases s) simp_all
  with assms(5) have "b dvd a * 2 ^ s" by (simp add: mult.assoc [symmetric])
  then have "(of_nat (rne_div (a * 2 ^ s) b) :: rat) = of_nat (a * 2 ^ s) / of_nat b"
    using assms(2) by (intro rne_div_exact)
  then show ?thesis by (simp add: fl frac_val_def)
qed

lemma math_round_floor:
  assumes "0 < snd x"
  shows "int (math_round x) = \<lfloor>frac_val x + 1 / 2\<rfloor>"
proof -
  have "frac_val x + 1 / 2 = of_nat (2 * fst x + snd x) / of_nat (2 * snd x)"
    using assms by (simp add: frac_val_def field_simps)
  then show ?thesis by (simp only: math_round_def floor_divide_of_nat_eq)
qed

lemma floor_near_fraction:
  fixes v :: rat
  assumes "0 < D" and "N mod D \<noteq> 0" and "\<bar>v - of_nat N / of_nat D\<bar> < 1 / of_nat D"
  shows "\<lfloor>v\<rfloor> = int (N div D)"
proof -
  define q r where "q = N div D" and "r = N mod D"
  have N: "N = q * D + r" and r: "1 \<le> r" "r + 1 \<le> D"
    using assms(1,2) by (simp_all add: q_def r_def Suc_leI)
  have dpos: "(0::rat) < of_nat D" using assms(1) by simp
  have quot: "(of_nat N / of_nat D :: rat) = of_nat q + of_nat r / of_nat D"
    using dpos by (simp add: N add_divide_distrib)
  have "(of_nat 1 :: rat) \<le> of_nat r" using r(1) by (simp only: of_nat_le_iff)
  then have lo: "(1::rat) / of_nat D \<le> of_nat r / of_nat D"
    using dpos by (intro divide_right_mono) simp_all
  have "(of_nat (r + 1) :: rat) \<le> of_nat D" using r(2) by (simp only: of_nat_le_iff)
  then have "(of_nat r + 1) / of_nat D \<le> (of_nat D :: rat) / of_nat D"
    using dpos by (intro divide_right_mono) simp_all
  then have hi: "(of_nat r :: rat) / of_nat D + 1 / of_nat D \<le> 1"
    using dpos by (simp add: add_divide_distrib)
  from assms(3) have "of_nat N / of_nat D - 1 / of_nat D < v" and "v < of_nat N / of_nat D + 1 / of_nat D"
    by (simp_all add: abs_less_iff)
  with quot lo hi have "of_int (int q) \<le> v" and "v < of_int (int q) + 1" by simp_all
  then show ?thesis unfolding q_def [symmetric] by (rule floor_unique)
qed

lemma compute_score_zero: "0 < n \<Longrightarrow> compute_score 0 n = Num 0"
  by (simp add: compute_score_def js_div_def js_mul_def fl_frac_def math_round_def)

lemma compute_score_near:
  assumes "0 < c" and "c \<le> n" and "n < 2 ^ 32"
  shows "\<exists>x. compute_score c n = Num (math_round x) \<and> 0 < snd x
      \<and> \<bar>frac_val x - 100 * of_nat c / of_nat n\<bar> \<le> 1 / 2 ^ 45"
proof -
  have npos: "0 < n" using assms(1,2) by simp
  then have nr: "(0::rat) < of_nat n" by simp
  define t :: rat where "t = of_nat c / of_nat n"
  define e1 :: rat where "e1 = 1 / 2 ^ 53"
  define e2 :: rat where "e2 = 1 / 2 ^ 47"
  have "(of_nat c :: rat) \<le> of_nat n" using assms(2) by (simp only: of_nat_le_iff)
  then have t1: "t \<le> 1" using nr by (simp add: t_def)
  have "(1 :: rat) \<le> of_nat c" using assms(1) by simp
  moreover have "(of_nat n :: rat) < of_nat (2 ^ 32)" using assms(3) by (simp only: of_nat_less_iff)
  ultimately have "(1 :: rat) / 2 ^ 32 < of_nat c / of_nat n"
    using nr by (intro frac_less2) simp_all
  then have "1 / 2 ^ 32 < t" unfolding t_def .
  moreover have "e1 < 1 / 2 ^ 32" by (simp add: e1_def)
  ultimately have t0: "e1 < t" by (rule less_trans [rotated])
  define x1 where "x1 = fl_frac c n"
  have "t < 2 ^ 1" using t1 by simp
  then have x1: "0 < snd x1" "\<bar>frac_val x1 - t\<bar> \<le> e1"
    unfolding x1_def t_def e1_def using fl_frac_error [OF assms(1) npos, of 1] by simp_all
  then have v1: "t - e1 \<le> frac_val x1" "frac_val x1 \<le> t + e1"
    by (simp_all add: abs_le_iff)
  from v1(1) t0 have "0 < frac_val x1" by simp
  then have f1: "0 < fst x1" using x1(1)
    by (cases "fst x1 = 0") (simp_all add: frac_val_def)
  define x2 where "x2 = fl_frac (fst x1 * 100) (snd x1)"
  have y: "(of_nat (fst x1 * 100) / of_nat (snd x1) :: rat) = 100 * frac_val x1"
    by (simp add: frac_val_def)
  have "e1 \<le> 1 / 100" by (simp add: e1_def)
  with v1(2) t1 have "100 * frac_val x1 < 2 ^ 7" by simp
  with y have "(of_nat (fst x1 * 100) / of_nat (snd x1) :: rat) < 2 ^ 7" by simp
  then have x2: "0 < snd x2" "\<bar>frac_val x2 - 100 * frac_val x1\<bar> \<le> e2"
    unfolding x2_def e2_def using f1 x1(1) fl_frac_error [of "fst x1 * 100" "snd x1" 7] y
    by simp_all
  have "\<bar>frac_val x2 - 100 * t\<bar> \<le> e2 + 100 * e1"
    using x1(2) x2(2) by (simp add: abs_le_iff)
  also have "\<dots> \<le> 1 / 2 ^ 45" by (simp add: e1_def e2_def)
  finally have "\<bar>frac_val x2 - 100 * of_nat c / of_nat n\<bar> \<le> 1 / 2 ^ 45" by (simp add: t_def)
  moreover have "compute_score c n = Num (math_round x2)"
    using npos by (simp add: compute_score_def js_mul_def js_div_def x2_def x1_def)
  ultimately show ?thesis using x2(1) by blast
qed

lemma round_half_up_fraction:
  assumes "0 < n"
  shows "round_half_up (of_nat a / of_nat n) = (2 * a + n) div (2 * n)"
proof -
  have "(of_nat a / of_nat n :: rat) + 1 / 2 = of_nat (2 * a + n) / of_nat (2 * n)"
    using assms by (simp add: field_simps)
  then show ?thesis by (simp only: round_half_up_def floor_divide_of_nat_eq nat_int)
qed

lemma half_way_fraction:
  assumes "0 < n"
  shows "half_way (of_nat a / of_nat n) \<longleftrightarrow> (2 * a + n) mod (2 * n) = 0"
proof -
  define N D where "N = 2 * a + n" and "D = 2 * n"
  have dpos: "0 < D" using assms by (simp add: D_def)
  have eq: "(of_nat a / of_nat n :: rat) + 1 / 2 = of_nat N / of_nat D"
    using assms by (simp add: N_def D_def field_simps)
  have "(of_int \<lfloor>(of_nat N / of_nat D :: rat)\<rfloor> = (of_nat N / of_nat D :: rat)) \<longleftrightarrow> N mod D = 0"
  proof
    assume "of_int \<lfloor>(of_nat N / of_nat D :: rat)\<rfloor> = (of_nat N / of_nat D :: rat)"
    then have "(of_nat (N div D) :: rat) = of_nat N / of_nat D"
      by (simp add: floor_divide_of_nat_eq)
    then have "(of_nat (N div D * D) :: rat) = of_nat N" using dpos by (simp add: field_simps)
    then have "N div D * D = N" by (simp only: of_nat_eq_iff)
    then show "N mod D = 0" by (metis mod_mult_self2_is_0)
  next
    assume "N mod D = 0"
    then obtain k where "N = D * k" by auto
    then show "of_int \<lfloor>(of_nat N / of_nat D :: rat)\<rfloor> = (of_nat N / of_nat D :: rat)"
      using dpos by (simp add: floor_divide_of_nat_eq)
  qed
  then show ?thesis by (simp add: half_way_def eq N_def D_def)
qed

lemma percentage_fraction: "percentage c n = of_nat (100 * c) / of_nat n"
  by (simp add: percentage_def)

lemma compute_score_not_half_way:
  assumes "0 < n" and "c \<le> n" and "n < 2 ^ 32" and "\<not> half_way (percentage c n)"
  shows "compute_score c n = Num (round_half_up (percentage c n))"
proof (cases "c = 0")
  case True
  then show ?thesis using assms(1)
    by (simp add: compute_score_zero percentage_def round_half_up_def)
next
  case False
  then have "0 < c" by simp
  from compute_score_near [OF this assms(2,3)]
  obtain x where x: "compute_score c n = Num (math_round x)" "0 < snd x"
    and err: "\<bar>frac_val x - 100 * of_nat c / of_nat n\<bar> \<le> 1 / 2 ^ 45"
    by blast
  define N D where "N = 2 * (100 * c) + n" and "D = 2 * n"
  have dpos: "0 < D" using assms(1) by (simp add: D_def)
  have nt: "N mod D \<noteq> 0"
    using assms(4) half_way_fraction [OF assms(1), of "100 * c"]
    by (simp add: percentage_fraction N_def D_def)
  have eq: "(100 * of_nat c / of_nat n :: rat) + 1 / 2 = of_nat N / of_nat D"
    using assms(1) by (simp add: N_def D_def field_simps)
  have "(of_nat D :: rat) < of_nat (2 ^ 45)"
    using assms(3) unfolding D_def by (simp only: of_nat_less_iff) simp
  then have "(1 :: rat) / 2 ^ 45 < 1 / of_nat D"
    using dpos by (intro divide_strict_left_mono) simp_all
  moreover have "\<bar>(frac_val x + 1 / 2) - of_nat N / of_nat D\<bar> \<le> 1 / 2 ^ 45"
    using err unfolding eq [symmetric] by simp
  ultimately have "\<bar>(frac_val x + 1 / 2) - of_nat N / of_nat D\<bar> < 1 / of_nat D" by simp
  with dpos nt have "\<lfloor>frac_val x + 1 / 2\<rfloor> = int (N div D)" by (rule floor_near_fraction)
  then have "math_round x = N div D" using math_round_floor [OF x(2)] by simp
  moreover have "round_half_up (percentage c n) = N div D"
    using round_half_up_fraction [OF assms(1), of "100 * c"]
    by (simp only: percentage_fraction N_def D_def)
  ultimately show ?thesis using x(1) by simp
qed

text \<open>The score of a quiz with questions is an integer of at most 100.\<close>

lemma compute_score_bounded:
  assumes "0 < n" and "c \<le> n" and "n < 2 ^ 32"
  shows "\<exists>k \<le> 100. compute_score c n = Num k"
proof (cases "c = 0")
  case True
  with assms(1) show ?thesis by (simp add: compute_score_zero)
next
  case False
  then have cpos: "0 < c" by simp
  from compute_score_near [OF cpos assms(2,3)]
  obtain x where x: "compute_score c n = Num (math_round x)" and pos: "0 < snd x"
    and near: "\<bar>frac_val x - 100 * of_nat c / of_nat n\<bar> \<le> 1 / 2 ^ 45"
    by blast
  have nr: "(0::rat) < of_nat n" using assms(1) by simp
  have "(of_nat c :: rat) \<le> of_nat n" using assms(2) by (simp only: of_nat_le_iff)
  then have "100 * of_nat c / of_nat n \<le> (100 :: rat)" using nr by (simp add: field_simps)
  moreover have "(1 :: rat) / 2 ^ 45 \<le> 1 / 4" by simp
  ultimately have "frac_val x + 1 / 2 < 101" using near by linarith
  then have "\<lfloor>frac_val x + 1 / 2\<rfloor> < 101" by (simp add: floor_less_iff)
  then have "math_round x \<le> 100" using math_round_floor [OF pos] by linarith
  with x show ?thesis by blast
qed

section \<open>The score computed from exact counts\<close>

text \<open>
  A percentage halfway between two integers needs a quiz length that is a multiple of
  8; below 40 questions these are the sixteen cases evaluated here, and in each the
  double product is the exact percentage.
\<close>

lemmas score_eval = compute_score_def js_mul_def js_div_def fl_frac_def binexp_def bitlen.simps
  rne_div_def math_round_def Let_def

lemma compute_score_ties_below_40:
  "compute_score 1 8 = Num 13"
    "compute_score 3 8 = Num 38"
    "compute_score 5 8 = Num 63"
    "compute_score 7 8 = Num 88"
    "compute_score 2 16 = Num 13"
    "compute_score 6 16 = Num 38"
    "compute_score 10 16 = Num 63"
    "compute_score 14 16 = Num 88"
    "compute_score 3 24 = Num 13"
    "compute_score 9 24 = Num 38"
    "compute_score 15 24 = Num 63"
    "compute_score 21 24 = Num 88"
    "compute_score 4 32 = Num 13"
    "compute_score 12 32 = Num 38"
    "compute_score 20 32 = Num 63"
    "compute_score 28 32 = Num 88"
  by (simp_all add: score_eval)

lemma half_way_multiple_of_8:
  assumes "0 < n" and "half_way (percentage c n)"
  shows "8 dvd n"
proof -
  from assms have "(2 * (100 * c) + n) mod (2 * n) = 0"
    using half_way_fraction [OF assms(1), of "100 * c"] by (simp only: percentage_fraction)
  then obtain j where j: "2 * (100 * c) + n = 2 * n * j" by auto
  with assms(1) have "j \<noteq> 0" by (cases j) auto
  then obtain j' where "j = Suc j'" by (cases j) auto
  with j have eq: "8 * (25 * c) = n * (2 * j' + 1)" by (simp add: algebra_simps)
  have "8 dvd 8 * (25 * c)" by (rule dvd_triv_left)
  then have "8 dvd n * (2 * j' + 1)" by (simp only: eq)
  moreover have "coprime (2 ^ 3) (2 * j' + 1 :: nat)"
    by (simp only: coprime_power_left_iff) simp
  then have "coprime 8 (2 * j' + 1 :: nat)" by simp
  ultimately show ?thesis by (simp only: coprime_dvd_mult_left_iff)
qed

lemma le_numeral_split: "(c::nat) \<le> numeral k \<longleftrightarrow> c = numeral k \<or> c \<le> pred_numeral k"
  by (auto simp: numeral_eq_Suc le_Suc_eq)

lemmas tie_values = compute_score_ties_below_40 compute_score_ties_below_40(1) [unfolded One_nat_def]

lemma tie_8:
  assumes "c \<le> 8" and "(2 * (100 * c) + 8) mod (2 * 8) = 0"
  shows "compute_score c 8 = Num ((2 * (100 * c) + 8) div (2 * 8))"
  using assms by (auto simp: le_numeral_split le_Suc_eq tie_values)

lemma tie_16:
  assumes "c \<le> 16" and "(2 * (100 * c) + 16) mod (2 * 16) = 0"
  shows "compute_score c 16 = Num ((2 * (100 * c) + 16) div (2 * 16))"
  using assms by (auto simp: le_numeral_split le_Suc_eq tie_values)

lemma tie_24:
  assumes "c \<le> 24" and "(2 * (100 * c) + 24) mod (2 * 24) = 0"
  shows "compute_score c 24 = Num ((2 * (100 * c) + 24) div (2 * 24))"
  using assms by (auto simp: le_numeral_split le_Suc_eq tie_values)

lemma tie_32:
  assumes "c \<le> 32" and "(2 * (100 * c) + 32) mod (2 * 32) = 0"
  shows "compute_score c 32 = Num ((2 * (100 * c) + 32) div (2 * 32))"
  using assms by (auto simp: le_numeral_split le_Suc_eq tie_values)

lemma multiple_of_8_below_40:
  assumes "0 < (n::nat)" and "n < 40" and "8 dvd n"
  shows "n = 8 \<or> n = 16 \<or> n = 24 \<or> n = 32"
proof -
  from assms(3) obtain m where m: "n = 8 * m" ..
  with assms(1,2) have "0 < m" "m < 5" by simp_all
  then have "m = 1 \<or> m = 2 \<or> m = 3 \<or> m = 4" by arith
  with m show ?thesis by auto
qed

lemma compute_score_below_40:
  assumes "0 < n" and "n < 40" and "c \<le> n"
  shows "compute_score c n = Num (round_half_up (percentage c n))"
proof (cases "half_way (percentage c n)")
  case False
  from assms(2) have "n < 2 ^ 32" by simp
  with assms(1,3) False show ?thesis by (intro compute_score_not_half_way)
next
  case True
  have rh: "round_half_up (percentage c n) = (2 * (100 * c) + n) div (2 * n)"
    using round_half_up_fraction [OF assms(1), of "100 * c"] by (simp only: percentage_fraction)
  have tie: "(2 * (100 * c) + n) mod (2 * n) = 0"
    using True half_way_fraction [OF assms(1), of "100 * c"] by (simp only: percentage_fraction)
  have "8 dvd n" using assms(1) True by (rule half_way_multiple_of_8)
  with assms(1,2) have "n = 8 \<or> n = 16 \<or> n = 24 \<or> n = 32" by (rule multiple_of_8_below_40)
  then show ?thesis
    unfolding rh using tie assms(3) tie_8 [of c] tie_16 [of c] tie_24 [of c] tie_32 [of c]
    by (elim disjE) (simp_all only:)
qed

section \<open>The statistics of a quiz\<close>

lemma math_round_zero: "math_round (0, 1) = 0"
  by (simp add: math_round_def)

lemma js_average_round:
  assumes "0 < N" and "N < 2 ^ 32" and "S \<le> 100 * N"
  shows "js_average (Num S) N = Num (round_half_up (of_nat S / of_nat N))"
proof (cases "S = 0")
  case True
  then show ?thesis
    by (simp add: js_div_def fl_frac_def math_round_def round_half_up_def)
next
  case False
  then have spos: "0 < S" by simp
  have nr: "(0::rat) < of_nat N" using assms(1) by simp
  have "(of_nat S :: rat) \<le> of_nat (100 * N)" using assms(3) by (simp only: of_nat_le_iff)
  then have "(of_nat S / of_nat N :: rat) \<le> 100" using nr by (simp add: field_simps)
  then have small: "(of_nat S / of_nat N :: rat) < 2 ^ 7" by simp
  define x where "x = fl_frac S N"
  have x: "0 < snd x" "\<bar>frac_val x - of_nat S / of_nat N\<bar> \<le> 1 / 2 ^ (54 - 7)"
    unfolding x_def using fl_frac_error [OF spos assms(1) small] by simp_all
  define A D where "A = 2 * S + N" and "D = 2 * N"
  have dpos: "0 < D" using assms(1) by (simp add: D_def)
  have eq: "(of_nat S / of_nat N :: rat) + 1 / 2 = of_nat A / of_nat D"
    using assms(1) by (simp add: A_def D_def field_simps)
  have "\<lfloor>frac_val x + 1 / 2\<rfloor> = int (A div D)"
  proof (cases "A mod D = 0")
    case True
    then obtain j where j: "2 * S + N = 2 * N * j" unfolding A_def D_def by auto
    with assms(1) have "j \<noteq> 0" by (cases j) auto
    then obtain j' where "j = Suc j'" by (cases j) auto
    with j have "S * 2 = N * (2 * j' + 1)" by (simp add: algebra_simps)
    then have "N dvd S * 2" by (simp only: dvd_triv_left)
    then have "frac_val x = of_nat S / of_nat N"
      unfolding x_def using fl_frac_exact [OF spos assms(1) small] by simp
    then show ?thesis by (simp only: eq floor_divide_of_nat_eq)
  next
    case nt: False
    have "(of_nat D :: rat) < of_nat (2 ^ 47)"
      using assms(2) unfolding D_def by (simp only: of_nat_less_iff) simp
    then have "(1 :: rat) / 2 ^ 47 < 1 / of_nat D"
      using dpos by (intro divide_strict_left_mono) simp_all
    moreover have "\<bar>(frac_val x + 1 / 2) - of_nat A / of_nat D\<bar> \<le> 1 / 2 ^ 47"
      using x(2) unfolding eq [symmetric] by simp
    ultimately have "\<bar>(frac_val x + 1 / 2) - of_nat A / of_nat D\<bar> < 1 / of_nat D" by simp
    with dpos nt show ?thesis by (rule floor_near_fraction)
  qed
  then have "math_round x = A div D" using math_round_floor [OF x(1)] by simp
  moreover have "round_half_up (of_nat S / of_nat N) = A div D"
    using round_half_up_fraction [OF assms(1), of S] by (simp only: A_def D_def)
  ultimately show ?thesis by (simp add: js_div_def x_def)
qed

lemma foldl_js_add: "foldl js_add (Num a) (map Num ks) = Num (a + sum_list ks)"
  by (induction ks arbitrary: a) (simp_all add: add.assoc)

lemma foldl_js_max: "foldl js_max (Num a) (map Num ks) = Num (Max (insert a (set ks)))"
proof (induction ks arbitrary: a)
  case Nil
  then show ?case by simp
next
  case (Cons k ks)
  have "Max (insert (max a k) (set ks)) = Max (insert a (insert k (set ks)))"
    by (cases "set ks = {}") (simp_all add: max.assoc)
  with Cons show ?case by simp
qed

lemma foldl_js_min: "foldl js_min (Num a) (map Num ks) = Num (Min (insert a (set ks)))"
proof (induction ks arbitrary: a)
  case Nil
  then show ?case by simp
next
  case (Cons k ks)
  have "Min (insert (min a k) (set ks)) = Min (insert a (insert k (set ks)))"
    by (cases "set ks = {}") (simp_all add: min.assoc)
  with Cons show ?case by simp
qed

lemma math_max_Num:
  "ks \<noteq> [] \<Longrightarrow> length ks \<le> max_args \<Longrightarrow> math_max max_args (map Num ks) = Some (Num (Max (set ks)))"
  by (cases ks) (simp_all add: math_max_def foldl_js_max)

lemma math_min_Num:
  "ks \<noteq> [] \<Longrightarrow> length ks \<le> max_args \<Longrightarrow> math_min max_args (map Num ks) = Some (Num (Min (set ks)))"
  by (cases ks) (simp_all add: math_min_def foldl_js_min)

lemma sum_list_bounded: "\<forall>k \<in> set ks. k \<le> (b::nat) \<Longrightarrow> sum_list ks \<le> b * length ks"
  by (induction ks) (auto simp: algebra_simps)

lemma round_half_up_mean:
  assumes "ks \<noteq> []"
  shows "round_half_up (mean ks) = (2 * sum_list ks + length ks) div (2 * length ks)"
  using assms round_half_up_fraction [of "length ks" "sum_list ks"] by (simp add: mean_def)

text \<open>
  For a stored quiz whose stored scores are integers of at most 100, fewer than
  \<open>2 ^ 32\<close> of them and no more than a call can take as arguments, the statistics
  are: the number of submissions; the mean of the scores rounded to the nearest
  integer, a tie going up; the greatest and the least score; and 0 for the last three
  when there is no submission.
\<close>

lemma quiz_results_numeric:
  assumes "st quizId = Some qz" and "map score (submissions qz) = map Num ks"
    and "\<forall>k \<in> set ks. k \<le> 100" and "length ks < 2 ^ 32" and "length ks \<le> max_args"
  shows "\<exists>v. quiz_results max_args quizId st = Inr v
      \<and> totalSubmissions (rv_stats v) = length (submissions qz)
      \<and> averageScore (rv_stats v) = Num (if ks = [] then 0 else round_half_up (mean ks))
      \<and> highestScore (rv_stats v) = Num (if ks = [] then 0 else Max (set ks))
      \<and> lowestScore (rv_stats v) = Num (if ks = [] then 0 else Min (set ks))"
proof -
  have len: "length (submissions qz) = length ks"
    using assms(2) by (metis length_map)
  have stats: "compute_stats max_args (submissions qz) =
      Some \<lparr>totalSubmissions = length (submissions qz),
       averageScore = Num (if ks = [] then 0 else round_half_up (mean ks)),
       highestScore = Num (if ks = [] then 0 else Max (set ks)),
       lowestScore = Num (if ks = [] then 0 else Min (set ks))\<rparr>"
  proof (cases "ks = []")
    case True
    with assms(2) show ?thesis by (simp add: compute_stats_def)
  next
    case False
    then have pos: "0 < length ks" by simp
    have "sum_list ks \<le> 100 * length ks" using assms(3) by (rule sum_list_bounded)
    with pos assms(4)
    have "js_average (Num (sum_list ks)) (length ks) = Num (round_half_up (mean ks))"
      unfolding mean_def by (rule js_average_round)
    then show ?thesis
      using False pos assms(5) foldl_js_add [of 0 ks]
      by (simp add: compute_stats_def Let_def assms(2) math_max_Num math_min_Num)
  qed
  show ?thesis
    using assms(1) by (simp add: quiz_results_def store_get_def stats)
qed

text \<open>Scenario F: the scores 80 and 60.\<close>

lemma quiz_results_80_60:
  "\<exists>v. quiz_results 125000 ''quiz_1_abc''
        [''quiz_1_abc'' \<mapsto> (quiz_of [mcq 0, mcq 1, mcq 1, mcq 3, mcq 2])
           \<lparr>submissions := [scored ''Alice'' 4, scored ''Bob'' 3]\<rparr>] = Inr v
     \<and> totalSubmissions (rv_stats v) = 2 \<and> averageScore (rv_stats v) = Num 70
     \<and> highestScore (rv_stats v) = Num 80 \<and> lowestScore (rv_stats v) = Num 60"
proof -
  let ?qz = "(quiz_of [mcq 0, mcq 1, mcq 1, mcq 3, mcq 2])
           \<lparr>submissions := [scored ''Alice'' 4, scored ''Bob'' 3]\<rparr>"
  have a: "[''quiz_1_abc'' \<mapsto> ?qz] ''quiz_1_abc'' = Some ?qz" by simp
  have b: "map score (submissions ?qz) = map Num [80, 60]" by (simp add: scored_def)
  have c: "\<forall>k \<in> set [80, 60 :: nat]. k \<le> 100" by simp
  have d: "length [80, 60 :: nat] < 2 ^ 32" by simp
  have d': "length [80, 60 :: nat] \<le> 125000" by simp
  have e: "round_half_up (mean [80, 60]) = 70" by (simp add: round_half_up_mean)
  from quiz_results_numeric [of "[''quiz_1_abc'' \<mapsto> ?qz]" "''quiz_1_abc''" ?qz "[80, 60]" 125000]
    a b c d d'
  obtain v where "quiz_results 125000 ''quiz_1_abc'' [''quiz_1_abc'' \<mapsto> ?qz] = Inr v"
    and "totalSubmissions (rv_stats v) = length (submissions ?qz)"
    and "averageScore (rv_stats v) = Num (round_half_up (mean [80, 60]))"
    and "highestScore (rv_stats v) = Num (Max (set [80, 60]))"
    and "lowestScore (rv_stats v) = Num (Min (set [80, 60]))"
    by auto
  then show ?thesis by (simp add: e)
qed

lemma foldl_not_a_number:
  assumes "\<And>x. f NaN x = NaN" and "\<And>x. f x NaN = NaN"
  shows "a = NaN \<or> NaN \<in> set xs \<Longrightarrow> foldl f a xs = NaN"
proof (induction xs arbitrary: a)
  case Nil
  then show ?case by simp
next
  case (Cons x xs)
  from Cons.prems have "f a x = NaN \<or> NaN \<in> set xs" using assms by auto
  then show ?case using Cons.IH [of "f a x"] by simp
qed

lemma js_add_NaN: "js_add NaN x = NaN" "js_add x NaN = NaN"
  by (cases x; simp)+

lemma js_max_NaN: "js_max NaN x = NaN" "js_max x NaN = NaN"
  by (cases x; simp)+

lemma js_min_NaN: "js_min NaN x = NaN" "js_min x NaN = NaN"
  by (cases x; simp)+

text \<open>
  C5 (the code differs). Two kinds of stored quiz get no statistics as claimed. The
  scores that \<^verbatim>\<open>submit-quiz\<close> stores are not all numbers: a submission to a quiz
  without questions stores NaN, and for a stored quiz with such a submission the
  average, the highest and the lowest score that \<^verbatim>\<open>quiz-results\<close> reports are all
  NaN. And for a stored quiz with more submissions than one call takes arguments the
  spread of line 336 throws: the request is answered with the failure of the
  \<^verbatim>\<open>catch\<close> of line 349.
\<close>

theorem quiz_results_defects:
  assumes "st quizId = Some qz"
  shows "(max_args < length (submissions qz)
            \<longrightarrow> quiz_results max_args quizId st = Inl ResultsFailed)
     \<and> (length (submissions qz) \<le> max_args \<and> NaN \<in> set (map score (submissions qz))
            \<longrightarrow> (\<exists>v. quiz_results max_args quizId st = Inr v
                  \<and> totalSubmissions (rv_stats v) = length (submissions qz)
                  \<and> averageScore (rv_stats v) = NaN
                  \<and> highestScore (rv_stats v) = NaN
                  \<and> lowestScore (rv_stats v) = NaN))"
proof (intro conjI impI)
  assume "max_args < length (submissions qz)"
  then have "submissions qz \<noteq> []" by auto
  with \<open>max_args < length (submissions qz)\<close> assms
  show "quiz_results max_args quizId st = Inl ResultsFailed"
    by (simp add: quiz_results_def store_get_def compute_stats_def math_max_def Let_def)
next
  assume a: "length (submissions qz) \<le> max_args \<and> NaN \<in> set (map score (submissions qz))"
  define scores where "scores = map score (submissions qz)"
  have ne: "scores \<noteq> []" and nan: "NaN \<in> set scores"
    using a unfolding scores_def by auto
  have len: "length scores \<le> max_args" using a by (simp add: scores_def)
  have "foldl js_add (Num 0) scores = NaN"
    using nan by (intro foldl_not_a_number js_add_NaN) simp
  then have avg: "js_average (foldl js_add (Num 0) scores) (length scores) = NaN" by simp
  have hdtl: "hd scores = NaN \<or> NaN \<in> set (tl scores)"
    using ne nan by (cases scores) auto
  have mx: "math_max max_args scores = Some NaN"
    using len hdtl foldl_not_a_number [of js_max "hd scores" "tl scores"]
    by (simp add: math_max_def js_max_NaN)
  have mn: "math_min max_args scores = Some NaN"
    using len hdtl foldl_not_a_number [of js_min "hd scores" "tl scores"]
    by (simp add: math_min_def js_min_NaN)
  have "compute_stats max_args (submissions qz) =
      Some \<lparr>totalSubmissions = length (submissions qz), averageScore = NaN,
            highestScore = NaN, lowestScore = NaN\<rparr>"
    using ne avg mx mn by (simp add: compute_stats_def Let_def scores_def [symmetric])
  then show "\<exists>v. quiz_results max_args quizId st = Inr v
      \<and> totalSubmissions (rv_stats v) = length (submissions qz)
      \<and> averageScore (rv_stats v) = NaN
      \<and> highestScore (rv_stats v) = NaN
      \<and> lowestScore (rv_stats v) = NaN"
    using assms by (simp add: quiz_results_def store_get_def)
qed

theorem quiz_results_defects_witness:
  "(\<exists>v. quiz_results 125000 ''quiz_1_abc''
        (run example_engine
           [GenerateQuiz (Some (JStr ''Photosynthesis'')) None (Some (JStr ''room-1''))
              (Content (Some ''[]'')) ''quiz_1_abc'' ''2024'',
            SubmitQuiz ''quiz_1_abc'' (Some (JStr ''Alice'')) (Some (JArr [])) ''2025'']
           Map.empty) = Inr v
     \<and> totalSubmissions (rv_stats v) = 1 \<and> averageScore (rv_stats v) = NaN
     \<and> highestScore (rv_stats v) = NaN \<and> lowestScore (rv_stats v) = NaN)
   \<and> quiz_results 125000 ''quiz_1_abc''
        [''quiz_1_abc'' \<mapsto> (quiz_of [mcq 0, mcq 1, mcq 1, mcq 3, mcq 2])
           \<lparr>submissions := many_submissions\<rparr>] = Inl ResultsFailed"
proof -
  let ?qz = "\<lparr>roomName = JStr ''room-1'', topic = JStr ''Photosynthesis'', questions = [],
      submissions = [\<lparr>studentName = JStr ''Alice'', answers = JArr [], score = NaN,
         correctCount = 0, totalQuestions = 0, submittedAt = ''2025''\<rparr>],
      createdAt = ''2024''\<rparr>"
  let ?qm = "(quiz_of [mcq 0, mcq 1, mcq 1, mcq 3, mcq 2])\<lparr>submissions := many_submissions\<rparr>"
  have g: "snd (post_generate_quiz (json_parse example_engine) (text_positive example_engine)
       (Some (JStr ''Photosynthesis'')) None (Some (JStr ''room-1'')) (Content (Some ''[]''))
       ''quiz_1_abc'' ''2024'' Map.empty)
     = [''quiz_1_abc'' \<mapsto> \<lparr>roomName = JStr ''room-1'', topic = JStr ''Photosynthesis'',
         questions = [], submissions = [], createdAt = ''2024''\<rparr>]"
    by (simp add: post_generate_quiz_def generate_quiz_def prompt_throws_def context_throws_def
        example_engine_def json_text_plain public_questions_def)
  have st: "run example_engine
           [GenerateQuiz (Some (JStr ''Photosynthesis'')) None (Some (JStr ''room-1''))
              (Content (Some ''[]'')) ''quiz_1_abc'' ''2024'',
            SubmitQuiz ''quiz_1_abc'' (Some (JStr ''Alice'')) (Some (JArr [])) ''2025'']
           Map.empty = [''quiz_1_abc'' \<mapsto> ?qz]"
    by (simp add: split_def g submit_quiz_def store_get_def Let_def compute_score_def)
  have many: "length (submissions ?qm) = 125001" by (simp add: many_submissions_def)
  from quiz_results_defects [of "[''quiz_1_abc'' \<mapsto> ?qz]" "''quiz_1_abc''" ?qz 125000]
  have a: "\<exists>v. quiz_results 125000 ''quiz_1_abc'' [''quiz_1_abc'' \<mapsto> ?qz] = Inr v
     \<and> totalSubmissions (rv_stats v) = 1 \<and> averageScore (rv_stats v) = NaN
     \<and> highestScore (rv_stats v) = NaN \<and> lowestScore (rv_stats v) = NaN"
    by simp
  from quiz_results_defects [of "[''quiz_1_abc'' \<mapsto> ?qm]" "''quiz_1_abc''" ?qm 125000]
  have b: "quiz_results 125000 ''quiz_1_abc'' [''quiz_1_abc'' \<mapsto> ?qm] = Inl ResultsFailed"
    unfolding many by simp
  from a b show ?thesis unfolding st by blast
qed

section \<open>The score of a submission\<close>

lemma grade_results:
  assumes "grade ans 0 qs = Some (cnt, rs)"
  shows "rs = map (\<lambda>i. \<lparr>questionId = i, question = get_prop (qs ! i) ''question'',
             studentAnswer = js_index ans i,
             correctAnswer = get_prop (qs ! i) ''correctAnswer'',
             isCorrect = strict_eq (js_index ans i) (get_prop (qs ! i) ''correctAnswer'')\<rparr>)
           [0..<length qs]"
proof (rule nth_equalityI)
  show "length rs = length (map (\<lambda>i. \<lparr>questionId = i, question = get_prop (qs ! i) ''question'',
             studentAnswer = js_index ans i,
             correctAnswer = get_prop (qs ! i) ''correctAnswer'',
             isCorrect = strict_eq (js_index ans i) (get_prop (qs ! i) ''correctAnswer'')\<rparr>)
           [0..<length qs])"
    using grade_length [OF assms] by simp
next
  fix i
  assume "i < length rs"
  then have i: "i < length qs" using grade_length [OF assms] by simp
  then show "rs ! i = map (\<lambda>i. \<lparr>questionId = i, question = get_prop (qs ! i) ''question'',
             studentAnswer = js_index ans i,
             correctAnswer = get_prop (qs ! i) ''correctAnswer'',
             isCorrect = strict_eq (js_index ans i) (get_prop (qs ! i) ''correctAnswer'')\<rparr>)
           [0..<length qs] ! i"
    using grade_nth [OF assms i] by simp
qed

lemma grade_correct_count:
  assumes "grade ans 0 qs = Some (cnt, rs)"
  shows "cnt = correct_count ans qs"
proof -
  have "cnt = length (filter isCorrect rs)" using assms by (rule grade_count)
  also have "\<dots> = correct_count ans qs"
    unfolding grade_results [OF assms] correct_count_def
    by (simp add: filter_map comp_def)
  finally show ?thesis .
qed

lemma correct_count_le: "correct_count ans qs \<le> length qs"
proof -
  have "correct_count ans qs \<le> length [0..<length qs]"
    unfolding correct_count_def by (rule length_filter_le)
  then show ?thesis by simp
qed

lemma submit_quiz_counted:
  assumes "quizId \<noteq> []" and "truthy nm" and "truthy ans" and "st quizId = Some qz"
    and "JNull \<notin> set (questions qz)"
  shows "\<exists>rs. submit_quiz quizId nm ans now st =
     (if to_string_throws (the nm) then Inl SubmissionFailed
      else Inr \<lparr>res_score = compute_score (correct_count (the ans) (questions qz))
                  (length (questions qz)),
           res_correctCount = correct_count (the ans) (questions qz),
           res_totalQuestions = length (questions qz), results = rs\<rparr>,
      st(quizId \<mapsto> qz\<lparr>submissions := submissions qz @
         [\<lparr>studentName = the nm, answers = the ans,
           score = compute_score (correct_count (the ans) (questions qz)) (length (questions qz)),
           correctCount = correct_count (the ans) (questions qz),
           totalQuestions = length (questions qz), submittedAt = now\<rparr>]\<rparr>))"
proof -
  from assms(5) obtain cnt rs where g: "grade (the ans) 0 (questions qz) = Some (cnt, rs)"
    by (rule grade_Some)
  then have "cnt = correct_count (the ans) (questions qz)" by (rule grade_correct_count)
  with g assms(1-4) show ?thesis by (auto simp: submit_quiz_graded)
qed

lemma round_half_up_percentage:
  assumes "0 < n"
  shows "round_half_up (percentage c n) = (200 * c + n) div (2 * n)"
  using round_half_up_fraction [OF assms, of "100 * c"] by (simp add: percentage_fraction)

text \<open>
  C1 (the code differs). A well-formed submission to a stored quiz with at least one
  question appends to the stored scores, and returns when it is answered with a grade,
  \<^verbatim>\<open>Math.round\<close> of the double \<^verbatim>\<open>(correctCount / totalQuestions) * 100\<close>, where
  \<^verbatim>\<open>correctCount\<close> is the number of indices at which the answer equals the key.
  That score is the exact percentage rounded to the nearest integer whenever the quiz
  has fewer than 40 questions, and for a longer quiz whenever the percentage does not
  lie halfway between two integers.
\<close>

theorem submit_quiz_score:
  assumes "quizId \<noteq> []" and "truthy nm" and "truthy ans" and "st quizId = Some qz"
    and "JNull \<notin> set (questions qz)"
    and "0 < length (questions qz)" and "length (questions qz) < 2 ^ 32"
  shows "\<exists>r st' qz' sc. submit_quiz quizId nm ans now st = (r, st') \<and> st' quizId = Some qz'
      \<and> map score (submissions qz') = map score (submissions qz) @ [sc]
      \<and> (if to_string_throws (the nm) then r = Inl SubmissionFailed
          else \<exists>g. r = Inr g \<and> res_score g = sc
            \<and> res_correctCount g = correct_count (the ans) (questions qz)
            \<and> res_totalQuestions g = length (questions qz))
      \<and> sc = compute_score (correct_count (the ans) (questions qz)) (length (questions qz))
      \<and> (half_way (percentage (correct_count (the ans) (questions qz)) (length (questions qz)))
            \<and> 40 \<le> length (questions qz)
          \<or> sc = Num (round_half_up
                (percentage (correct_count (the ans) (questions qz)) (length (questions qz)))))"
proof -
  define c n where "c = correct_count (the ans) (questions qz)" and "n = length (questions qz)"
  have cn: "c \<le> n" unfolding c_def n_def by (rule correct_count_le)
  have r: "half_way (percentage c n) \<and> 40 \<le> n
      \<or> compute_score c n = Num (round_half_up (percentage c n))"
  proof (cases "n < 40")
    case True
    with assms(6) cn show ?thesis by (simp add: n_def [symmetric] compute_score_below_40)
  next
    case False
    show ?thesis
    proof (cases "half_way (percentage c n)")
      case True
      with False show ?thesis by simp
    next
      case nh: False
      have "compute_score c n = Num (round_half_up (percentage c n))"
        using assms(6,7) cn nh unfolding n_def [symmetric] by (intro compute_score_not_half_way)
      then show ?thesis by simp
    qed
  qed
  from submit_quiz_counted [of quizId nm ans st qz now] assms(1-5) obtain rs where
    "submit_quiz quizId nm ans now st =
     (if to_string_throws (the nm) then Inl SubmissionFailed
      else Inr \<lparr>res_score = compute_score c n, res_correctCount = c, res_totalQuestions = n,
                results = rs\<rparr>,
      st(quizId \<mapsto> qz\<lparr>submissions := submissions qz @
         [\<lparr>studentName = the nm, answers = the ans, score = compute_score c n,
           correctCount = c, totalQuestions = n, submittedAt = now\<rparr>]\<rparr>))"
    unfolding c_def n_def by blast
  with r show ?thesis unfolding c_def [symmetric] n_def [symmetric] by auto
qed

theorem submit_quiz_score_witness:
  "\<exists>g st'. submit_quiz ''quiz_1_abc'' (Some (JStr ''Alice''))
        (Some (JArr [JNum 0, JNum 1, JNum 2, JNum 3, JNum 0])) ''2024''
        [''quiz_1_abc'' \<mapsto> quiz_of [mcq 0, mcq 1, mcq 1, mcq 3, mcq 2]] = (Inr g, st')
     \<and> res_correctCount g = 3 \<and> res_totalQuestions g = 5 \<and> res_score g = Num 60"
proof -
  let ?qz = "quiz_of [mcq 0, mcq 1, mcq 1, mcq 3, mcq 2]"
  let ?ans = "JArr [JNum 0, JNum 1, JNum 2, JNum 3, JNum 0]"
  have cc: "correct_count ?ans (questions ?qz) = 3"
    by (simp add: correct_count_def quiz_of_def mcq_def upt_conv_Cons)
  have n5: "length (questions ?qz) = 5" by (simp add: quiz_of_def)
  from submit_quiz_score [of "''quiz_1_abc''" "Some (JStr ''Alice'')" "Some ?ans"
      "[''quiz_1_abc'' \<mapsto> ?qz]" ?qz "''2024''"]
  obtain g st' sc where s: "submit_quiz ''quiz_1_abc'' (Some (JStr ''Alice'')) (Some ?ans) ''2024''
        [''quiz_1_abc'' \<mapsto> ?qz] = (Inr g, st')"
    and sc: "res_score g = sc"
    and c: "res_correctCount g = correct_count ?ans (questions ?qz)"
    and n: "res_totalQuestions g = length (questions ?qz)"
    and r: "half_way (percentage (correct_count ?ans (questions ?qz)) (length (questions ?qz)))
            \<and> 40 \<le> length (questions ?qz)
          \<or> sc = Num (round_half_up
                (percentage (correct_count ?ans (questions ?qz)) (length (questions ?qz))))"
    by (auto simp: quiz_of_def mcq_def)
  from r have "sc = Num (round_half_up (percentage 3 5))" unfolding cc n5 by simp
  then have "res_score g = Num 60" using sc by (simp add: round_half_up_percentage)
  with s c n cc n5 show ?thesis by auto
qed

lemma correct_count_twenty_three: "correct_count twenty_three_right forty_questions = 23"
proof -
  have "strict_eq (js_index twenty_three_right i) (get_prop (forty_questions ! i) ''correctAnswer'')
      \<longleftrightarrow> i < 23" if "i < 40" for i
    using that
    by (simp add: twenty_three_right_def forty_questions_def mcq_def nth_append)
  then have "filter (\<lambda>i. strict_eq (js_index twenty_three_right i)
        (get_prop (forty_questions ! i) ''correctAnswer'')) [0..<40]
      = filter (\<lambda>i. i < 23) [0..<40]"
    by (intro filter_cong) simp_all
  also have "\<dots> = [0..<23]"
  proof -
    have "[0..<40] = [0..<23] @ [23..<40]"
      using upt_add_eq_append [of 0 23 17] by simp
    moreover have "filter (\<lambda>i. i < 23) [0..<23] = [0..<23]" by (rule filter_True) simp
    moreover have "filter (\<lambda>i. i < 23) [23..<40] = []" by (rule filter_False) simp
    ultimately show ?thesis by (simp only: filter_append append_Nil2)
  qed
  finally show ?thesis by (simp add: correct_count_def forty_questions_def)
qed

text \<open>
  With 23 correct answers out of 40 the double product is 57.49999999999999: the
  score is 57, and the percentage 57.5 rounds to 58.
\<close>

theorem score_of_23_out_of_40:
  "res_correctCount (projr (fst (submit_quiz ''quiz_1_abc'' (Some (JStr ''Alice''))
      (Some twenty_three_right) ''2024'' [''quiz_1_abc'' \<mapsto> quiz_of forty_questions]))) = 23
   \<and> res_score (projr (fst (submit_quiz ''quiz_1_abc'' (Some (JStr ''Alice''))
      (Some twenty_three_right) ''2024'' [''quiz_1_abc'' \<mapsto> quiz_of forty_questions]))) = Num 57
   \<and> round_half_up (percentage 23 40) = 58"
proof -
  have nn: "JNull \<notin> set (questions (quiz_of forty_questions))"
    by (simp add: quiz_of_def forty_questions_def mcq_def)
  have len: "length (questions (quiz_of forty_questions)) = 40"
    by (simp add: quiz_of_def forty_questions_def)
  have cc: "correct_count twenty_three_right (questions (quiz_of forty_questions)) = 23"
    using correct_count_twenty_three by (simp add: quiz_of_def)
  have sc: "compute_score 23 40 = Num 57" by (simp add: score_eval)
  have tr: "truthy (Some twenty_three_right)" by (simp add: twenty_three_right_def)
  from submit_quiz_counted [of "''quiz_1_abc''" "Some (JStr ''Alice'')" "Some twenty_three_right"
      "[''quiz_1_abc'' \<mapsto> quiz_of forty_questions]" "quiz_of forty_questions" "''2024''"]
    nn tr
  obtain rs where "fst (submit_quiz ''quiz_1_abc'' (Some (JStr ''Alice''))
      (Some twenty_three_right) ''2024'' [''quiz_1_abc'' \<mapsto> quiz_of forty_questions])
    = Inr \<lparr>res_score = Num 57, res_correctCount = 23, res_totalQuestions = 40, results = rs\<rparr>"
    by (auto simp: len cc sc)
  moreover have "round_half_up (percentage 23 40) = 58"
    by (simp add: round_half_up_percentage)
  ultimately show ?thesis by simp
qed

end
